theory Spec2Isabelle
  imports Main "HOL-Library.Word"
begin

unbundle bit_operations_syntax

section \<open>Bytes, slices and status values\<close>

text \<open>
  A \<open>char\<close> buffer, a \<open>std::string\<close> and a \<open>Slice\<close> (pointer and size) are all
  modelled by the list of the bytes they hold. A cursor \<open>p\<close> with its \<open>limit\<close> is the
  list of the bytes in \<open>[p, limit)\<close>; advancing the cursor drops a prefix of that list.
\<close>

type_synonym u8 = "8 word"
type_synonym u32 = "32 word"
type_synonym u64 = "64 word"
type_synonym bytes = "u8 list"

section \<open>util/coding.cc\<close>

subsection \<open>Varint encoding\<close>

text \<open>
  \<open>EncodeVarint32\<close> writes one to five bytes at \<open>dst\<close> and returns the advanced pointer;
  the model returns the bytes written. Storing a \<open>uint32_t\<close> into a \<open>uint8_t\<close> keeps
  the low eight bits (\<open>ucast\<close>).
\<close>

definition EncodeVarint32 :: "u32 \<Rightarrow> bytes" where
  "EncodeVarint32 v =
     (let B = 128 in
      if v < 2 ^ 7 then [ucast v]
      else if v < 2 ^ 14 then [ucast (v OR B), ucast (drop_bit 7 v)]
      else if v < 2 ^ 21 then
        [ucast (v OR B), ucast (drop_bit 7 v OR B), ucast (drop_bit 14 v)]
      else if v < 2 ^ 28 then
        [ucast (v OR B), ucast (drop_bit 7 v OR B), ucast (drop_bit 14 v OR B),
         ucast (drop_bit 21 v)]
      else
        [ucast (v OR B), ucast (drop_bit 7 v OR B), ucast (drop_bit 14 v OR B),
         ucast (drop_bit 21 v OR B), ucast (drop_bit 28 v)])"

text \<open>\<open>PutVarint32\<close> appends the encoding to the string \<open>dst\<close>.\<close>

definition PutVarint32 :: "bytes \<Rightarrow> u32 \<Rightarrow> bytes" where
  "PutVarint32 dst v = dst @ EncodeVarint32 v"

text \<open>
  \<open>VarintLength\<close> counts the seven-bit groups of a 64-bit value with a \<open>while\<close> loop;
  the loop ends because every shift makes the value smaller.
\<close>

function VarintLength_loop :: "u64 \<Rightarrow> nat \<Rightarrow> nat" where
  "VarintLength_loop v len =
     (if v \<ge> 128 then VarintLength_loop (drop_bit 7 v) (len + 1) else len)"
  by pat_completeness auto
termination
proof (relation "measure (\<lambda>(v, len). unat v)")
  show "wf (measure (\<lambda>(v, len). unat v))" by simp
next
  fix v :: u64 and len :: nat
  assume "128 \<le> v"
  then have "0 < unat v" by (simp add: word_le_nat_alt)
  then have "unat v div 2 ^ 7 < unat v" by simp
  then have "unat (drop_bit 7 v) < unat v"
    by (simp only: unat_drop_bit_eq drop_bit_eq_div [where 'a = nat])
  then show "((drop_bit 7 v, len + 1), (v, len)) \<in> measure (\<lambda>(v, len). unat v)"
    by simp
qed

declare VarintLength_loop.simps [simp del]

definition VarintLength :: "u64 \<Rightarrow> nat" where
  "VarintLength v = VarintLength_loop v 1"

subsection \<open>Varint decoding\<close>

text \<open>
  \<open>GetVarint32PtrFallback p limit value\<close>: the argument is the list of bytes in
  \<open>[p, limit)\<close>. \<open>None\<close> is the \<open>nullptr\<close> result; \<open>Some (v, rest)\<close> is the value
  stored through \<open>value\<close> and the bytes from the returned pointer up to \<open>limit\<close>.
  The loop runs while \<open>shift \<le> 28\<close> and \<open>p < limit\<close>.
\<close>

fun GetVarint32_loop :: "nat \<Rightarrow> u32 \<Rightarrow> bytes \<Rightarrow> (u32 \<times> bytes) option" where
  "GetVarint32_loop shift result [] = None"
| "GetVarint32_loop shift result (b # p) =
     (if shift \<le> 28 then
        (let byte = (ucast b :: u32) in
         if byte AND 128 \<noteq> 0
         then GetVarint32_loop (shift + 7) (result OR push_bit shift (byte AND 127)) p
         else Some (result OR push_bit shift byte, p))
      else None)"

definition GetVarint32PtrFallback :: "bytes \<Rightarrow> (u32 \<times> bytes) option" where
  "GetVarint32PtrFallback p = GetVarint32_loop 0 0 p"

text \<open>\<open>GetVarint64Ptr\<close> is the same loop on 64 bits, running while \<open>shift \<le> 63\<close>.\<close>

fun GetVarint64_loop :: "nat \<Rightarrow> u64 \<Rightarrow> bytes \<Rightarrow> (u64 \<times> bytes) option" where
  "GetVarint64_loop shift result [] = None"
| "GetVarint64_loop shift result (b # p) =
     (if shift \<le> 63 then
        (let byte = (ucast b :: u64) in
         if byte AND 128 \<noteq> 0
         then GetVarint64_loop (shift + 7) (result OR push_bit shift (byte AND 127)) p
         else Some (result OR push_bit shift byte, p))
      else None)"

definition GetVarint64Ptr :: "bytes \<Rightarrow> (u64 \<times> bytes) option" where
  "GetVarint64Ptr p = GetVarint64_loop 0 0 p"


text \<open>
  Modelled from the spec: \<open>GetVarint32Ptr\<close> is declared inline in \<open>util/coding.h\<close>,
  which is not among the sources. The spec knows one \<open>decode_varint32(p, limit, out)\<close>
  that "returns new pointer on success or failure if buffer exhausted or length exceeds
  5 bytes"; it is modelled by the decoding loop of \<open>GetVarint32PtrFallback\<close>.
\<close>

definition GetVarint32Ptr :: "bytes \<Rightarrow> (u32 \<times> bytes) option" where
  "GetVarint32Ptr p = GetVarint32PtrFallback p"

text \<open>
  \<open>GetVarint32 input value\<close> returns the new contents of \<open>*input\<close> together with
  the decoded value; \<open>None\<close> in the second component is the result \<open>false\<close>, and then
  \<open>*input\<close> has not been assigned.
\<close>

definition GetVarint32 :: "bytes \<Rightarrow> bytes \<times> u32 option" where
  "GetVarint32 input =
     (case GetVarint32Ptr input of
        None \<Rightarrow> (input, None)
      | Some (v, q) \<Rightarrow> (q, Some v))"

definition GetVarint64 :: "bytes \<Rightarrow> bytes \<times> u64 option" where
  "GetVarint64 input =
     (case GetVarint64Ptr input of
        None \<Rightarrow> (input, None)
      | Some (v, q) \<Rightarrow> (q, Some v))"

subsection \<open>Length-prefixed slices\<close>

text \<open>\<open>value.size()\<close> is a \<open>size_t\<close>; passing it to \<open>PutVarint32\<close> keeps its low 32 bits.\<close>

definition PutLengthPrefixedSlice :: "bytes \<Rightarrow> bytes \<Rightarrow> bytes" where
  "PutLengthPrefixedSlice dst v = PutVarint32 dst (of_nat (length v)) @ v"

text \<open>
  The pointer version: \<open>None\<close> is \<open>nullptr\<close>, \<open>Some (result, rest)\<close> is the slice
  stored through \<open>result\<close> and the bytes from the returned pointer up to \<open>limit\<close>.
\<close>

definition GetLengthPrefixedSlice_ptr :: "bytes \<Rightarrow> (bytes \<times> bytes) option" where
  "GetLengthPrefixedSlice_ptr p =
     (case GetVarint32Ptr p of
        None \<Rightarrow> None
      | Some (len, p') \<Rightarrow>
          if unat len > length p' then None
          else Some (take (unat len) p', drop (unat len) p'))"

text \<open>
  The slice version \<open>GetLengthPrefixedSlice(Slice* input, Slice* result)\<close> returns the
  new contents of \<open>*input\<close> and the result slice, \<open>None\<close> for \<open>false\<close>. The call of
  \<open>GetVarint32\<close> has already updated \<open>*input\<close> when the size test is made.
\<close>

definition GetLengthPrefixedSlice :: "bytes \<Rightarrow> bytes \<times> bytes option" where
  "GetLengthPrefixedSlice input =
     (case GetVarint32 input of
        (input1, None) \<Rightarrow> (input1, None)
      | (input1, Some len) \<Rightarrow>
          if length input1 \<ge> unat len
          then (drop (unat len) input1, Some (take (unat len) input1))
          else (input1, None))"

text \<open>A decoder that succeeds has consumed at least one byte.\<close>

lemma GetVarint32_loop_shorter:
  "GetVarint32_loop shift r p = Some (v, rest) \<Longrightarrow> length rest < length p"
proof (induction p arbitrary: shift r)
  case Nil
  then show ?case by simp
next
  case (Cons b p)
  then show ?case
    by (fastforce simp: Let_def split: if_splits)
qed

lemma GetVarint32_shorter:
  "GetVarint32 input = (input1, Some len) \<Longrightarrow> length input1 < length input"
  by (auto simp: GetVarint32_def GetVarint32Ptr_def GetVarint32PtrFallback_def
      split: option.splits dest: GetVarint32_loop_shorter)

lemma GetLengthPrefixedSlice_shorter:
  "GetLengthPrefixedSlice input = (input1, Some r) \<Longrightarrow> length input1 < length input"
  by (auto simp: GetLengthPrefixedSlice_def split: prod.splits option.splits if_splits
      dest: GetVarint32_shorter)

subsection \<open>Fixed-width encoding\<close>

text \<open>
  Modelled from the spec: \<open>EncodeFixed32\<close>, \<open>EncodeFixed64\<close>, \<open>DecodeFixed32\<close> and
  \<open>DecodeFixed64\<close> are declared inline in \<open>util/coding.h\<close>, which is not among the
  sources. The spec has \<open>encode_fixed32/64(buf, v)\<close> write "little-endian into a
  caller-provided 4/8-byte region" and \<open>decode_fixed32/64(buf)\<close> be the "inverse;
  requires buf length \<ge> 4/8". A decoder given fewer bytes reads outside its buffer:
  that is the result \<open>None\<close>.
\<close>

definition EncodeFixed32 :: "u32 \<Rightarrow> bytes" where
  "EncodeFixed32 v =
     [ucast v, ucast (drop_bit 8 v), ucast (drop_bit 16 v), ucast (drop_bit 24 v)]"

definition EncodeFixed64 :: "u64 \<Rightarrow> bytes" where
  "EncodeFixed64 v =
     [ucast v, ucast (drop_bit 8 v), ucast (drop_bit 16 v), ucast (drop_bit 24 v),
      ucast (drop_bit 32 v), ucast (drop_bit 40 v), ucast (drop_bit 48 v),
      ucast (drop_bit 56 v)]"

fun DecodeFixed32 :: "bytes \<Rightarrow> u32 option" where
  "DecodeFixed32 (b0 # b1 # b2 # b3 # _) =
     Some (ucast b0 OR push_bit 8 (ucast b1) OR push_bit 16 (ucast b2)
           OR push_bit 24 (ucast b3))"
| "DecodeFixed32 _ = None"

fun DecodeFixed64 :: "bytes \<Rightarrow> u64 option" where
  "DecodeFixed64 (b0 # b1 # b2 # b3 # b4 # b5 # b6 # b7 # _) =
     Some (ucast b0 OR push_bit 8 (ucast b1) OR push_bit 16 (ucast b2)
           OR push_bit 24 (ucast b3) OR push_bit 32 (ucast b4) OR push_bit 40 (ucast b5)
           OR push_bit 48 (ucast b6) OR push_bit 56 (ucast b7))"
| "DecodeFixed64 _ = None"

definition PutFixed32 :: "bytes \<Rightarrow> u32 \<Rightarrow> bytes" where
  "PutFixed32 dst v = dst @ EncodeFixed32 v"

definition PutFixed64 :: "bytes \<Rightarrow> u64 \<Rightarrow> bytes" where
  "PutFixed64 dst v = dst @ EncodeFixed64 v"

section \<open>Status\<close>

text \<open>
  \<open>leveldb::Status\<close> (\<open>include/leveldb/status.h\<close>, not among the sources) is used here
  only through its constructors and \<open>ok()\<close>: a status is \<open>OK\<close> or an error kind with its
  message.
\<close>

datatype Status = OK | NotFound string | Corruption string | IOError string

definition ok :: "Status \<Rightarrow> bool" where
  "ok s = (s = OK)"

section \<open>db/write\_batch.cc\<close>

text \<open>
  Modelled from the spec: the value types of \<open>db/dbformat.h\<close>, which is not among the
  sources: "Type is VALUE (0x01) or DELETION (0x00)".
\<close>

definition kTypeDeletion :: u8 where
  "kTypeDeletion = 0"

definition kTypeValue :: u8 where
  "kTypeValue = 1"

definition kHeader :: nat where
  "kHeader = 12"

text \<open>
  A \<open>WriteBatch\<close> is its byte string \<open>rep_\<close>. The operations that read or write the
  header at fixed offsets are outside the string when it is shorter than the header;
  that is the result \<open>None\<close>.
\<close>

record WriteBatch =
  rep :: bytes

definition Clear :: "WriteBatch \<Rightarrow> WriteBatch" where
  "Clear b = b\<lparr>rep := replicate kHeader 0\<rparr>"

definition ApproximateSize :: "WriteBatch \<Rightarrow> nat" where
  "ApproximateSize b = length (rep b)"

text \<open>
  \<open>Count\<close> returns the \<open>uint32_t\<close> of \<open>DecodeFixed32\<close> as an \<open>int\<close>, and \<open>SetCount\<close>
  takes an \<open>int\<close>: both are kept as the 32-bit pattern, on which \<open>+ 1\<close> and \<open>\<noteq>\<close>
  agree with the \<open>int\<close> operations as long as no count reaches \<open>2\<^sup>3\<^sup>1\<close>. From
  there on \<open>+ 1\<close> overflows the \<open>int\<close>; the model takes the wrap-around of the 32-bit
  pattern, which is what the fixed32 field of the header then holds.
\<close>

definition Count :: "WriteBatch \<Rightarrow> u32 option" where
  "Count b = DecodeFixed32 (drop 8 (rep b))"

definition SetCount :: "WriteBatch \<Rightarrow> u32 \<Rightarrow> WriteBatch option" where
  "SetCount b n =
     (if length (rep b) < 12 then None
      else Some (b\<lparr>rep := take 8 (rep b) @ EncodeFixed32 n @ drop 12 (rep b)\<rparr>))"

definition Sequence :: "WriteBatch \<Rightarrow> u64 option" where
  "Sequence b = DecodeFixed64 (rep b)"

definition SetSequence :: "WriteBatch \<Rightarrow> u64 \<Rightarrow> WriteBatch option" where
  "SetSequence b seq =
     (if length (rep b) < 8 then None
      else Some (b\<lparr>rep := EncodeFixed64 seq @ drop 8 (rep b)\<rparr>))"

definition WriteBatch_Put :: "WriteBatch \<Rightarrow> bytes \<Rightarrow> bytes \<Rightarrow> WriteBatch option" where
  "WriteBatch_Put b key val =
     (case Count b of
        None \<Rightarrow> None
      | Some c \<Rightarrow>
          (case SetCount b (c + 1) of
             None \<Rightarrow> None
           | Some b1 \<Rightarrow>
               Some (b1\<lparr>rep :=
                 PutLengthPrefixedSlice
                   (PutLengthPrefixedSlice (rep b1 @ [kTypeValue]) key) val\<rparr>)))"

definition WriteBatch_Delete :: "WriteBatch \<Rightarrow> bytes \<Rightarrow> WriteBatch option" where
  "WriteBatch_Delete b key =
     (case Count b of
        None \<Rightarrow> None
      | Some c \<Rightarrow>
          (case SetCount b (c + 1) of
             None \<Rightarrow> None
           | Some b1 \<Rightarrow>
               Some (b1\<lparr>rep := PutLengthPrefixedSlice (rep b1 @ [kTypeDeletion]) key\<rparr>)))"

text \<open>
  \<open>WriteBatch::Handler\<close> is an abstract class with the two methods \<open>Put\<close> and
  \<open>Delete\<close>; a handler is the pair of its methods, acting on the handler's own state.
\<close>

record 'h Handler =
  handler_Put :: "'h \<Rightarrow> bytes \<Rightarrow> bytes \<Rightarrow> 'h"
  handler_Delete :: "'h \<Rightarrow> bytes \<Rightarrow> 'h"

text \<open>
  The \<open>while\<close> loop of \<open>Iterate\<close>. It returns the handler's state and either the status
  of an early \<open>return\<close> or, when the input is used up, the value of \<open>found\<close>. \<open>found\<close>
  is an \<open>int\<close>, kept as its 32-bit pattern like the count.
\<close>

function Iterate_loop :: "'h Handler \<Rightarrow> bytes \<Rightarrow> u32 \<Rightarrow> 'h \<Rightarrow> (Status + u32) \<times> 'h" where
  "Iterate_loop H [] found h = (Inr found, h)"
| "Iterate_loop H (tag # input) found h =
     (if tag = kTypeValue then
        (case GetLengthPrefixedSlice input of
           (input1, None) \<Rightarrow> (Inl (Corruption ''bad WriteBatch Put''), h)
         | (input1, Some key) \<Rightarrow>
             (case GetLengthPrefixedSlice input1 of
                (input2, None) \<Rightarrow> (Inl (Corruption ''bad WriteBatch Put''), h)
              | (input2, Some val) \<Rightarrow>
                  Iterate_loop H input2 (found + 1) (handler_Put H h key val)))
      else if tag = kTypeDeletion then
        (case GetLengthPrefixedSlice input of
           (input1, None) \<Rightarrow> (Inl (Corruption ''bad WriteBatch Delete''), h)
         | (input1, Some key) \<Rightarrow>
             Iterate_loop H input1 (found + 1) (handler_Delete H h key))
      else (Inl (Corruption ''unknown WriteBatch tag''), h))"
  by pat_completeness auto
termination
proof (relation "measure (\<lambda>(H, input, found, h). length input)")
  show "wf (measure (\<lambda>(H, input, found, h). length input))" by simp
next
  fix H :: "'h Handler" and tag :: u8 and input found h input1 y key input2 ya val
  assume "(input1, y) = GetLengthPrefixedSlice input" "y = Some key"
    "(input2, ya) = GetLengthPrefixedSlice input1" "ya = Some val"
  then have "length input1 < length input" "length input2 < length input1"
    using GetLengthPrefixedSlice_shorter [of input input1 key]
      GetLengthPrefixedSlice_shorter [of input1 input2 val]
    by simp_all
  then show "((H, input2, found + 1, handler_Put H h key val), (H, tag # input, found, h))
      \<in> measure (\<lambda>(H, input, found, h). length input)"
    by simp
next
  fix H :: "'h Handler" and tag :: u8 and input found h input1 y key
  assume "(input1, y) = GetLengthPrefixedSlice input" "y = Some key"
  then have "length input1 < length input"
    using GetLengthPrefixedSlice_shorter [of input input1 key] by simp
  then show "((H, input1, found + 1, handler_Delete H h key), (H, tag # input, found, h))
      \<in> measure (\<lambda>(H, input, found, h). length input)"
    by simp
qed

declare Iterate_loop.simps [simp del]

definition Iterate :: "'h Handler \<Rightarrow> WriteBatch \<Rightarrow> 'h \<Rightarrow> (Status \<times> 'h) option" where
  "Iterate H b h =
     (if length (rep b) < kHeader
      then Some (Corruption ''malformed WriteBatch (too small)'', h)
      else
        (case Iterate_loop H (drop kHeader (rep b)) 0 h of
           (Inl s, h') \<Rightarrow> Some (s, h')
         | (Inr found, h') \<Rightarrow>
             (case Count b of
                None \<Rightarrow> None
              | Some c \<Rightarrow>
                  if found \<noteq> c
                  then Some (Corruption ''WriteBatch has wrong count'', h')
                  else Some (OK, h'))))"

subsection \<open>Building a batch and replaying it through a recording handler\<close>

text \<open>
  The operations a caller applies to a batch, and the handler that records what
  \<open>Iterate\<close> dispatches, in the order of the calls. \<open>WriteBatch_new\<close> is the constructor,
  which calls \<open>Clear\<close>.
\<close>

datatype batch_op = OpPut bytes bytes | OpDelete bytes

definition Recorder :: "batch_op list Handler" where
  "Recorder =
     \<lparr>handler_Put = (\<lambda>h k v. h @ [OpPut k v]), handler_Delete = (\<lambda>h k. h @ [OpDelete k])\<rparr>"

definition WriteBatch_new :: WriteBatch where
  "WriteBatch_new = Clear \<lparr>rep = []\<rparr>"

fun apply_op :: "WriteBatch \<Rightarrow> batch_op \<Rightarrow> WriteBatch option" where
  "apply_op b (OpPut k v) = WriteBatch_Put b k v"
| "apply_op b (OpDelete k) = WriteBatch_Delete b k"

fun apply_ops :: "WriteBatch \<Rightarrow> batch_op list \<Rightarrow> WriteBatch option" where
  "apply_ops b [] = Some b"
| "apply_ops b (x # xs) =
     (case apply_op b x of None \<Rightarrow> None | Some b' \<Rightarrow> apply_ops b' xs)"

definition replay :: "batch_op list \<Rightarrow> (Status \<times> batch_op list) option" where
  "replay ops =
     (case apply_ops WriteBatch_new ops of
        None \<Rightarrow> None
      | Some b \<Rightarrow> Iterate Recorder b [])"

definition built_count :: "batch_op list \<Rightarrow> nat option" where
  "built_count ops =
     (case apply_ops WriteBatch_new ops of
        None \<Rightarrow> None
      | Some b \<Rightarrow> map_option unat (Count b))"

text \<open>The sizes a varint32 length prefix can carry.\<close>

fun op_fits :: "batch_op \<Rightarrow> bool" where
  "op_fits (OpPut k v) = (length k < 2 ^ 32 \<and> length v < 2 ^ 32)"
| "op_fits (OpDelete k) = (length k < 2 ^ 32)"

text \<open>The bytes one operation appends to \<open>rep_\<close>, after the header.\<close>

fun enc_op :: "batch_op \<Rightarrow> bytes" where
  "enc_op (OpPut k v) =
     kTypeValue # EncodeVarint32 (of_nat (length k)) @ k @ EncodeVarint32 (of_nat (length v)) @ v"
| "enc_op (OpDelete k) = kTypeDeletion # EncodeVarint32 (of_nat (length k)) @ k"

subsection \<open>The record format of a batch, as the spec gives it\<close>

text \<open>
  The format of the spec, written without the decoders of \<open>coding.cc\<close>, to be
  compared with what \<open>Iterate\<close> does. A varint is "base-128, little-endian-groups,
  high bit = continuation. 1-5 bytes for 32-bit"; "a continuation bit on the
  maximum-length byte is malformed". \<open>spec_varint32 n p\<close> reads a varint of at most
  \<open>n\<close> bytes at the start of \<open>p\<close>, with natural numbers: it is \<open>Parsed\<close> with the
  value and the rest of the input, \<open>Exhausted\<close> when the input ends before a byte
  without the continuation bit, \<open>Overlong\<close> when \<open>n\<close> bytes all have it.
\<close>

datatype varint_parse = Parsed nat bytes | Exhausted | Overlong

fun spec_varint32 :: "nat \<Rightarrow> bytes \<Rightarrow> varint_parse" where
  "spec_varint32 0 p = Overlong"
| "spec_varint32 (Suc n) [] = Exhausted"
| "spec_varint32 (Suc n) (b # p) =
     (if unat b < 128 then Parsed (unat b) p
      else (case spec_varint32 n p of
              Parsed v r \<Rightarrow> Parsed (unat b - 128 + 128 * v) r
            | Exhausted \<Rightarrow> Exhausted
            | Overlong \<Rightarrow> Overlong))"

text \<open>
  "varstring = varint32 len, len bytes". The length is the 32-bit value of the varint.
  A varstring is truncated when the input ends inside the length or holds fewer than
  \<open>len\<close> bytes after it, and malformed when its length is an over-long varint.
\<close>

datatype varstring_parse = Varstring bytes bytes | StrTruncated | StrMalformed

definition spec_varstring :: "bytes \<Rightarrow> varstring_parse" where
  "spec_varstring p =
     (case spec_varint32 5 p of
        Parsed v r \<Rightarrow>
          (let len = v mod 2 ^ 32
           in if length r < len then StrTruncated else Varstring (take len r) (drop len r))
      | Exhausted \<Rightarrow> StrTruncated
      | Overlong \<Rightarrow> StrMalformed)"

text \<open>
  A record is "VALUE (0x01): varstring key, varstring value" or "DELETION (0x00):
  varstring key". \<open>spec_record\<close> reads one record: \<open>Complete\<close> with the rest of the
  input, or the reason why there is none. \<open>spec_records n p\<close> is the input left after
  \<open>n\<close> complete records.
\<close>

datatype record_parse = Complete bytes | NoRecord | BadTag | RecTruncated | RecMalformed

fun spec_record :: "bytes \<Rightarrow> record_parse" where
  "spec_record [] = NoRecord"
| "spec_record (tag # p) =
     (if tag = 0x01 then
        (case spec_varstring p of
           Varstring key r \<Rightarrow>
             (case spec_varstring r of
                Varstring val r' \<Rightarrow> Complete r'
              | StrTruncated \<Rightarrow> RecTruncated
              | StrMalformed \<Rightarrow> RecMalformed)
         | StrTruncated \<Rightarrow> RecTruncated
         | StrMalformed \<Rightarrow> RecMalformed)
      else if tag = 0x00 then
        (case spec_varstring p of
           Varstring key r \<Rightarrow> Complete r
         | StrTruncated \<Rightarrow> RecTruncated
         | StrMalformed \<Rightarrow> RecMalformed)
      else BadTag)"

fun spec_records :: "nat \<Rightarrow> bytes \<Rightarrow> bytes option" where
  "spec_records 0 p = Some p"
| "spec_records (Suc n) p =
     (case spec_record p of Complete r \<Rightarrow> spec_records n r | _ \<Rightarrow> None)"


section \<open>util/arena.h and util/arena.cc\<close>

text \<open>
  Memory handed out by the arena. The blocks obtained with \<open>new char[]\<close> are numbered
  in the order of allocation, which is their index in \<open>blocks_\<close>; a pointer into a
  block is the block's number and an offset. \<open>blocks_\<close> is kept as the list of the
  sizes of the blocks. Sizes are \<open>size_t\<close> values, far from wrapping, and are natural
  numbers here.
\<close>

datatype ptr = Null | Ptr nat nat

fun ptr_add :: "ptr \<Rightarrow> nat \<Rightarrow> ptr" where
  "ptr_add (Ptr blk off) n = Ptr blk (off + n)"
| "ptr_add Null n = Null"

record Arena =
  alloc_ptr :: ptr
  alloc_bytes_remaining :: nat
  blocks :: "nat list"
  memory_usage :: nat

definition Arena_kBlockSize :: nat where
  "Arena_kBlockSize = 4096"

definition Arena_new :: Arena where
  "Arena_new = \<lparr>alloc_ptr = Null, alloc_bytes_remaining = 0, blocks = [], memory_usage = 0\<rparr>"

definition MemoryUsage :: "Arena \<Rightarrow> nat" where
  "MemoryUsage a = memory_usage a"

text \<open>\<open>psz\<close> is \<open>sizeof(char*)\<close>, a constant of the platform.\<close>

definition AllocateNewBlock :: "nat \<Rightarrow> Arena \<Rightarrow> nat \<Rightarrow> ptr \<times> Arena" where
  "AllocateNewBlock psz a block_bytes =
     (Ptr (length (blocks a)) 0,
      a\<lparr>blocks := blocks a @ [block_bytes],
        memory_usage := memory_usage a + (block_bytes + psz)\<rparr>)"

definition AllocateFallback :: "nat \<Rightarrow> Arena \<Rightarrow> nat \<Rightarrow> ptr \<times> Arena" where
  "AllocateFallback psz a bytes =
     (if bytes > Arena_kBlockSize div 4 then AllocateNewBlock psz a bytes
      else
        (let (p, a1) = AllocateNewBlock psz a Arena_kBlockSize;
             a2 = a1\<lparr>alloc_ptr := p, alloc_bytes_remaining := Arena_kBlockSize\<rparr>;
             result = alloc_ptr a2
         in (result,
             a2\<lparr>alloc_ptr := ptr_add (alloc_ptr a2) bytes,
               alloc_bytes_remaining := alloc_bytes_remaining a2 - bytes\<rparr>)))"

text \<open>\<open>None\<close> is the failure of \<open>assert(bytes > 0)\<close>.\<close>

definition Allocate :: "nat \<Rightarrow> Arena \<Rightarrow> nat \<Rightarrow> (ptr \<times> Arena) option" where
  "Allocate psz a bytes =
     (if \<not> bytes > 0 then None
      else if bytes \<le> alloc_bytes_remaining a then
        Some (alloc_ptr a,
              a\<lparr>alloc_ptr := ptr_add (alloc_ptr a) bytes,
                alloc_bytes_remaining := alloc_bytes_remaining a - bytes\<rparr>)
      else Some (AllocateFallback psz a bytes))"

section \<open>db/log\_writer.cc\<close>

text \<open>
  Modelled from the spec: the constants of \<open>db/log_format.h\<close>, which is not among the
  sources: "Block size 32,768; header 7 bytes; types FULL=1, FIRST=2, MIDDLE=3, LAST=4,
  ZERO=0"; \<open>kMaxRecordType\<close> is the last of them.
\<close>

datatype RecordType = kZeroType | kFullType | kFirstType | kMiddleType | kLastType

fun RecordType_val :: "RecordType \<Rightarrow> nat" where
  "RecordType_val kZeroType = 0"
| "RecordType_val kFullType = 1"
| "RecordType_val kFirstType = 2"
| "RecordType_val kMiddleType = 3"
| "RecordType_val kLastType = 4"

definition kMaxRecordType :: nat where
  "kMaxRecordType = RecordType_val kLastType"

definition kBlockSize :: int where
  "kBlockSize = 32768"

definition kHeaderSize :: int where
  "kHeaderSize = 7"

text \<open>
  \<open>util/crc32c.h\<close> is not among the sources and the spec assumes the CRC32C computation
  available: \<open>crc32c::Value\<close> and \<open>crc32c::Extend\<close> are parameters, held in a record.
  Modelled from the spec: \<open>crc32c::Mask\<close>, of which the spec says
  "((crc >> 15) | (crc << 17)) + 0xA282EAD8 (truncated to 32 bits)".
\<close>

record crc32c =
  crc_Value :: "bytes \<Rightarrow> u32"
  crc_Extend :: "u32 \<Rightarrow> bytes \<Rightarrow> u32"

definition Mask :: "u32 \<Rightarrow> u32" where
  "Mask crc = (drop_bit 15 crc OR push_bit 17 crc) + 0xA282EAD8"

text \<open>
  \<open>WritableFile\<close> (\<open>include/leveldb/env.h\<close>, not among the sources) is an abstract class;
  the writer uses its methods \<open>Append\<close> and \<open>Flush\<close>. A file is the pair of these
  methods acting on the state \<open>'s\<close> of the file.
\<close>

record 's WritableFile =
  file_Append :: "'s \<Rightarrow> bytes \<Rightarrow> Status \<times> 's"
  file_Flush :: "'s \<Rightarrow> Status \<times> 's"

record 's Writer =
  dest :: 's
  block_offset :: int
  type_crc :: "u32 list"

definition InitTypeCrc :: "crc32c \<Rightarrow> u32 list" where
  "InitTypeCrc C = map (\<lambda>i. crc_Value C [of_nat i]) [0..<kMaxRecordType + 1]"

definition Writer_new :: "crc32c \<Rightarrow> 's \<Rightarrow> 's Writer" where
  "Writer_new C d = \<lparr>dest = d, block_offset = 0, type_crc = InitTypeCrc C\<rparr>"

definition Writer_new_length :: "crc32c \<Rightarrow> 's \<Rightarrow> nat \<Rightarrow> 's Writer" where
  "Writer_new_length C d dest_length =
     \<lparr>dest = d, block_offset = int dest_length mod kBlockSize, type_crc = InitTypeCrc C\<rparr>"

text \<open>
  \<open>EmitPhysicalRecord t ptr length\<close>: the bytes \<open>ptr[0..length)\<close> are the list \<open>data\<close>.
  \<open>None\<close> is the failure of one of the two assertions. The offset is advanced whatever
  the status of the writes.
\<close>

definition EmitPhysicalRecord ::
  "'s WritableFile \<Rightarrow> crc32c \<Rightarrow> 's Writer \<Rightarrow> RecordType \<Rightarrow> bytes \<Rightarrow> (Status \<times> 's Writer) option"
where
  "EmitPhysicalRecord F C w t data =
     (let len = length data in
      if \<not> len \<le> 0xffff then None
      else if \<not> block_offset w + kHeaderSize + int len \<le> kBlockSize then None
      else
        (let buf4 = (of_nat (len AND 0xff) :: u8);
             buf5 = (of_nat (drop_bit 8 len) :: u8);
             buf6 = (of_nat (RecordType_val t) :: u8);
             crc = crc_Extend C (type_crc w ! RecordType_val t) data;
             crc = Mask crc;
             buf = EncodeFixed32 crc @ [buf4, buf5, buf6];
             (s, d) = file_Append F (dest w) buf;
             (s, d) =
               (if ok s then
                  (let (s, d) = file_Append F d data
                   in if ok s then file_Flush F d else (s, d))
                else (s, d))
         in Some (s, w\<lparr>dest := d, block_offset := block_offset w + kHeaderSize + int len\<rparr>)))"

lemma EmitPhysicalRecord_offset:
  "EmitPhysicalRecord F C w t data = Some (s, w') \<Longrightarrow>
   block_offset w' = block_offset w + kHeaderSize + int (length data)"
  by (auto simp: EmitPhysicalRecord_def Let_def split: if_splits prod.splits)

text \<open>
  The step "Switch to a new block" of \<open>AddRecord\<close>: with \<open>leftover\<close> bytes left in the
  block, fewer than a header, the trailer is filled from the literal of six zero bytes
  (the status of that \<open>Append\<close> is not looked at) and the offset is reset.
\<close>

definition switch_block :: "'s WritableFile \<Rightarrow> 's Writer \<Rightarrow> int \<Rightarrow> 's Writer" where
  "switch_block F w leftover =
     (let d = (if leftover > 0
               then snd (file_Append F (dest w) (take (nat leftover) (replicate 6 0)))
               else dest w)
      in w\<lparr>dest := d, block_offset := 0\<rparr>)"

text \<open>
  The \<open>do \<dots> while\<close> loop of \<open>AddRecord\<close>. \<open>ptr\<close> and \<open>left\<close> are the list of the
  bytes not yet written and its length. \<open>None\<close> is the failure of an assertion.
\<close>

function AddRecord_loop ::
  "'s WritableFile \<Rightarrow> crc32c \<Rightarrow> 's Writer \<Rightarrow> bytes \<Rightarrow> bool \<Rightarrow> (Status \<times> 's Writer) option"
where
  "AddRecord_loop F C w ptr is_begin =
     (let leftover = kBlockSize - block_offset w in
      if \<not> leftover \<ge> 0 then None
      else
        (let w1 = (if leftover < kHeaderSize then switch_block F w leftover else w) in
         if \<not> kBlockSize - block_offset w1 - kHeaderSize \<ge> 0 then None
         else
           (let avail = nat (kBlockSize - block_offset w1 - kHeaderSize);
                left = length ptr;
                fragment_length = (if left < avail then left else avail);
                is_end = (left = fragment_length);
                type = (if is_begin \<and> is_end then kFullType
                        else if is_begin then kFirstType
                        else if is_end then kLastType
                        else kMiddleType)
            in case EmitPhysicalRecord F C w1 type (take fragment_length ptr) of
                 None \<Rightarrow> None
               | Some (s, w2) \<Rightarrow>
                   if ok s \<and> left - fragment_length > 0
                   then AddRecord_loop F C w2 (drop fragment_length ptr) False
                   else Some (s, w2))))"
  by pat_completeness auto
termination
  apply (relation "measure (\<lambda>(F, C, w, ptr, is_begin).
      2 * length ptr + (if block_offset w = kBlockSize - kHeaderSize then 1 else 0))")
   apply simp
  apply (auto simp: switch_block_def kBlockSize_def kHeaderSize_def Let_def
      dest!: EmitPhysicalRecord_offset split: if_splits)
  done

declare AddRecord_loop.simps [simp del]

definition AddRecord ::
  "'s WritableFile \<Rightarrow> crc32c \<Rightarrow> 's Writer \<Rightarrow> bytes \<Rightarrow> (Status \<times> 's Writer) option"
where
  "AddRecord F C w payload = AddRecord_loop F C w payload True"

text \<open>
  A file kept in memory, as the log tests use: both methods succeed and the state is the
  string of all bytes appended.
\<close>

definition StringDest :: "bytes WritableFile" where
  "StringDest = \<lparr>file_Append = (\<lambda>contents d. (OK, contents @ d)),
                 file_Flush = (\<lambda>contents. (OK, contents))\<rparr>"

subsection \<open>The fragment format\<close>

text \<open>
  One fragment as the spec lays it out: "fixed32 masked_crc (crc32c of type byte and
  payload, masked); u16 length (little-endian); u8 type; u8[length] payload", the CRC
  being extended from the seed precomputed for the type. The type of a fragment is
  chosen from its position in the record: "if first fragment and consumes all
  remaining: FULL; else first: FIRST; else last: LAST; else MIDDLE".
\<close>

definition fragment_bytes :: "crc32c \<Rightarrow> u32 list \<Rightarrow> RecordType \<Rightarrow> bytes \<Rightarrow> bytes" where
  "fragment_bytes C seeds t payload =
     EncodeFixed32 (Mask (crc_Extend C (seeds ! RecordType_val t) payload))
     @ [of_nat (length payload mod 256), of_nat (length payload div 256),
        of_nat (RecordType_val t)]
     @ payload"

definition fragment_type :: "bool \<Rightarrow> bool \<Rightarrow> RecordType" where
  "fragment_type is_first is_last =
     (if is_first \<and> is_last then kFullType
      else if is_first then kFirstType
      else if is_last then kLastType
      else kMiddleType)"

text \<open>
  The first step of an iteration of the loop of \<open>AddRecord\<close> on the file in memory:
  with fewer than 7 bytes left in the block, the trailer of zero bytes is appended and
  the offset is reset. Used to state the effect of one iteration.
\<close>

definition padded :: "bytes Writer \<Rightarrow> bytes Writer" where
  "padded w =
     (if 32768 - block_offset w < 7
      then w\<lparr>dest := dest w @ replicate (nat (32768 - block_offset w)) 0, block_offset := 0\<rparr>
      else w)"

section \<open>db/memtable.cc\<close>

subsection \<open>Reading an entry from memory\<close>


subsection \<open>Collaborators that are not among the sources\<close>










subsection \<open>The memtable\<close>










subsection \<open>Notions used in the proofs about the memtable\<close>






section \<open>Properties of the varint codec\<close>

subsection \<open>Bit-level facts\<close>

lemma lo_bits: "(v::'a::len word) < 2 ^ n \<Longrightarrow> bit v i \<Longrightarrow> i < n"
proof -
  assume a: "v < 2 ^ n" "bit v i"
  from a(1) have eq: "v AND mask n = v" by (rule less_mask_eq)
  from a(2) have "bit (v AND mask n) i" by (simp only: eq)
  then have "bit (mask n :: 'a word) i" by (simp only: bit_and_iff)
  then show "i < n" by (simp only: bit_mask_iff)
qed

lemmas lb7 = lo_bits [where n = 7 and 'a = 32, simplified]
lemmas lb14 = lo_bits [where n = 14 and 'a = 32, simplified]
lemmas lb21 = lo_bits [where n = 21 and 'a = 32, simplified]
lemmas lb28 = lo_bits [where n = 28 and 'a = 32, simplified]

lemma and128: "(w::'a::len word) AND 128 = 0 \<longleftrightarrow> \<not> bit w 7"
  using and_exp_eq_0_iff_not_bit [of w 7] by simp

lemma m127: "(127::'a::len word) = mask 7"
  by (simp add: mask_eq_exp_minus_1)

lemma bit128:
  "bit (128::'a::semiring_bit_operations) n \<longleftrightarrow> possible_bit TYPE('a) n \<and> n = 7"
  using bit_exp_iff [where 'a = "'a" and m = 7 and n = n] by auto

lemma nb35: "\<not> bit (v::u32) 35"
  using bit_imp_le_length [of v 35] by auto

lemma cont_u32: "(ucast (b::u8) :: u32) AND 128 = 0 \<longleftrightarrow> b AND 128 = 0"
  by (simp add: and128 bit_simps)

lemma cont_u64: "(ucast (b::u8) :: u64) AND 128 = 0 \<longleftrightarrow> b AND 128 = 0"
  by (simp add: and128 bit_simps)

subsection \<open>Decoding an encoded value, one lemma for each length\<close>

lemma decode_encode_1:
  "(v::u32) < 2 ^ 7 \<Longrightarrow> GetVarint32PtrFallback (EncodeVarint32 v @ rest) = Some (v, rest)"
  apply (simp add: GetVarint32PtrFallback_def EncodeVarint32_def and128 bit_simps Let_def)
  apply (rule conjI)
   apply (auto dest: lb7)[1]
  apply (rule impI)
  apply (rule bit_word_eqI)
  apply (auto simp: bit_simps dest: lb7)
  done

lemma decode_encode_2:
  "\<not> (v::u32) < 2 ^ 7 \<Longrightarrow> v < 2 ^ 14 \<Longrightarrow>
   GetVarint32PtrFallback (EncodeVarint32 v @ rest) = Some (v, rest)"
  apply (simp add: GetVarint32PtrFallback_def EncodeVarint32_def and128 bit_simps Let_def
      m127 bit128)
  apply (rule conjI)
   apply (auto dest: lb14)[1]
  apply (rule impI)
  apply (rule bit_word_eqI)
  apply (auto simp: bit_simps bit128 dest: lb14)
  done

lemma decode_encode_3:
  "\<not> (v::u32) < 2 ^ 7 \<Longrightarrow> \<not> v < 2 ^ 14 \<Longrightarrow> v < 2 ^ 21 \<Longrightarrow>
   GetVarint32PtrFallback (EncodeVarint32 v @ rest) = Some (v, rest)"
  apply (simp add: GetVarint32PtrFallback_def EncodeVarint32_def and128 bit_simps Let_def
      m127 bit128)
  apply (rule conjI)
   apply (auto dest: lb21)[1]
  apply (rule impI)
  apply (rule bit_word_eqI)
  apply (auto simp: bit_simps bit128 dest: lb21)
  done

lemma decode_encode_4:
  "\<not> (v::u32) < 2 ^ 7 \<Longrightarrow> \<not> v < 2 ^ 14 \<Longrightarrow> \<not> v < 2 ^ 21 \<Longrightarrow> v < 2 ^ 28 \<Longrightarrow>
   GetVarint32PtrFallback (EncodeVarint32 v @ rest) = Some (v, rest)"
  apply (simp add: GetVarint32PtrFallback_def EncodeVarint32_def and128 bit_simps Let_def
      m127 bit128)
  apply (rule conjI)
   apply (auto dest: lb28)[1]
  apply (rule impI)
  apply (rule bit_word_eqI)
  apply (auto simp: bit_simps bit128 dest: lb28)
  done

lemma split32:
  assumes "n < (32::nat)"
  obtains "n < 7" | m where "n = 7 + m" "m < 7" | m where "n = 14 + m" "m < 7"
    | m where "n = 21 + m" "m < 7" | m where "n = 28 + m" "m < 4"
proof -
  consider "n < 7" | "7 \<le> n" "n < 14" | "14 \<le> n" "n < 21" | "21 \<le> n" "n < 28"
    | "28 \<le> n" "n < 32"
    using assms by linarith
  then show thesis
  proof cases
    case 1 then show ?thesis using that(1) by simp
  next
    case 2 then show ?thesis using that(2) [of "n - 7"] by simp
  next
    case 3 then show ?thesis using that(3) [of "n - 14"] by simp
  next
    case 4 then show ?thesis using that(4) [of "n - 21"] by simp
  next
    case 5 then show ?thesis using that(5) [of "n - 28"] by simp
  qed
qed

lemma decode_encode_5:
  "\<not> (v::u32) < 2 ^ 7 \<Longrightarrow> \<not> v < 2 ^ 14 \<Longrightarrow> \<not> v < 2 ^ 21 \<Longrightarrow> \<not> v < 2 ^ 28 \<Longrightarrow>
   GetVarint32PtrFallback (EncodeVarint32 v @ rest) = Some (v, rest)"
  apply (simp add: GetVarint32PtrFallback_def EncodeVarint32_def and128 bit_simps Let_def
      m127 bit128 nb35)
  apply (rule bit_word_eqI)
  subgoal for n
  proof -
    assume "n < LENGTH(32)"
    then have "n < 32" by simp
    then show ?thesis
      by (cases n rule: split32) (simp_all add: bit_simps bit128)
  qed
  done

lemma decode_encode:
  "GetVarint32PtrFallback (EncodeVarint32 v @ rest) = Some (v, rest)"
  using decode_encode_1 [of v rest] decode_encode_2 [of v rest] decode_encode_3 [of v rest]
    decode_encode_4 [of v rest] decode_encode_5 [of v rest]
  by blast

subsection \<open>The length of an encoding\<close>

lemma VL_small: "unat v < 128 \<Longrightarrow> VarintLength_loop v len = len"
  by (subst VarintLength_loop.simps) (simp add: word_le_nat_alt)

lemma VL_big:
  "128 \<le> unat v \<Longrightarrow> VarintLength_loop v len = VarintLength_loop (drop_bit 7 v) (len + 1)"
  by (subst VarintLength_loop.simps) (simp add: word_le_nat_alt)

lemma unat_drop7: "unat (drop_bit 7 (v::u64)) = unat v div 128"
  by (simp only: unat_drop_bit_eq drop_bit_eq_div [where 'a = nat]) simp

lemma VL_k:
  "unat v < 128 * 128 ^ k \<Longrightarrow> k = 0 \<or> 128 ^ k \<le> unat v \<Longrightarrow>
   VarintLength_loop v len = len + k"
proof (induction k arbitrary: v len)
  case 0
  then show ?case by (simp add: VL_small)
next
  case (Suc k)
  from Suc.prems have lo: "128 * 128 ^ k \<le> unat v" by simp
  have "(1::nat) \<le> 128 ^ k" by simp
  then have "(128::nat) * 1 \<le> 128 * 128 ^ k" by (rule mult_le_mono2)
  with lo have big: "128 \<le> unat v" by linarith
  from Suc.prems(1) have "unat v < 128 * (128 * 128 ^ k)" by simp
  then have "unat v div 128 < 128 * 128 ^ k" by (simp add: div_less_iff_less_mult)
  then have a: "unat (drop_bit 7 v) < 128 * 128 ^ k"
    by (simp only: unat_drop7)
  from lo have "128 ^ k \<le> unat v div 128"
    by (simp add: less_eq_div_iff_mult_less_eq)
  then have b: "k = 0 \<or> 128 ^ k \<le> unat (drop_bit 7 v)"
    by (simp add: unat_drop7)
  from Suc.IH [OF a b, of "len + 1"] show ?case
    by (simp add: VL_big [OF big])
qed

lemma VarintLength_k:
  "unat v < 128 * 128 ^ k \<Longrightarrow> k = 0 \<or> 128 ^ k \<le> unat v \<Longrightarrow> VarintLength v = k + 1"
  by (simp add: VarintLength_def VL_k)

lemma length_EncodeVarint32: "length (EncodeVarint32 v) = VarintLength (ucast v)"
proof -
  have "unat v < 2 ^ 32" using unsigned_less [of v] by simp
  then have "unat v < 2 ^ 64" by simp
  then have u: "unat (ucast v :: u64) = unat v"
    by (simp add: unsigned_ucast_eq take_bit_nat_eq_self_iff)
  consider "v < 2 ^ 7" | "\<not> v < 2 ^ 7" "v < 2 ^ 14" | "\<not> v < 2 ^ 14" "v < 2 ^ 21"
    | "\<not> v < 2 ^ 21" "v < 2 ^ 28" | "\<not> v < 2 ^ 28"
    by blast
  then show ?thesis
  proof cases
    case 1
    then have "unat v < 128" by (simp add: word_less_nat_alt)
    then have "VarintLength (ucast v) = 0 + 1"
      by (intro VarintLength_k) (simp_all add: u)
    with 1 show ?thesis by (simp add: EncodeVarint32_def)
  next
    case 2
    then have "128 \<le> unat v" "unat v < 16384" by (simp_all add: word_less_nat_alt)
    then have "VarintLength (ucast v) = 1 + 1"
      by (intro VarintLength_k) (simp_all add: u)
    with 2 show ?thesis by (simp add: EncodeVarint32_def)
  next
    case 3
    then have r: "16384 \<le> unat v" "unat v < 2097152" by (simp_all add: word_less_nat_alt)
    then have "VarintLength (ucast v) = 2 + 1"
      by (intro VarintLength_k) (simp_all add: u)
    moreover from r have "\<not> v < 2 ^ 7" by (simp add: word_less_nat_alt)
    ultimately show ?thesis using 3 by (simp add: EncodeVarint32_def)
  next
    case 4
    then have r: "2097152 \<le> unat v" "unat v < 268435456" by (simp_all add: word_less_nat_alt)
    then have "VarintLength (ucast v) = 3 + 1"
      by (intro VarintLength_k) (simp_all add: u)
    moreover from r have "\<not> v < 2 ^ 7" "\<not> v < 2 ^ 14" by (simp_all add: word_less_nat_alt)
    ultimately show ?thesis using 4 by (simp add: EncodeVarint32_def)
  next
    case 5
    then have r: "268435456 \<le> unat v" by (simp add: word_less_nat_alt)
    have "unat v < 2 ^ 32" using unsigned_less [of v] by simp
    with r have "VarintLength (ucast v) = 4 + 1"
      by (intro VarintLength_k) (simp_all add: u)
    moreover from r have "\<not> v < 2 ^ 7" "\<not> v < 2 ^ 14" "\<not> v < 2 ^ 21"
      by (simp_all add: word_less_nat_alt)
    ultimately show ?thesis using 5 by (simp add: EncodeVarint32_def)
  qed
qed

lemma length_EncodeVarint32_bounds:
  "1 \<le> length (EncodeVarint32 v) \<and> length (EncodeVarint32 v) \<le> 5"
  by (simp add: EncodeVarint32_def Let_def)

text \<open>
  C2. Varint32 round trip: for every 32-bit value \<open>v\<close>, decoding the bytes written by
  \<open>EncodeVarint32 v\<close>, whatever bytes \<open>rest\<close> follow them before the limit, succeeds
  with the value \<open>v\<close> and leaves exactly \<open>rest\<close>, so the cursor has advanced over the
  encoding; the encoding is \<open>VarintLength v\<close> bytes long, and that length is between
  1 and 5.
\<close>

theorem varint32_roundtrip:
  "GetVarint32PtrFallback (EncodeVarint32 v @ rest) = Some (v, rest)
   \<and> length (EncodeVarint32 v @ rest) - length rest = VarintLength (ucast v)
   \<and> 1 \<le> VarintLength (ucast v) \<and> VarintLength (ucast v) \<le> 5"
  using decode_encode [of v rest] length_EncodeVarint32 [of v]
    length_EncodeVarint32_bounds [of v]
  by simp


subsection \<open>When decoding fails\<close>

lemma loop32_None:
  "GetVarint32_loop shift r p = None \<longleftrightarrow>
   (\<forall>b\<in>set (take ((35 - shift) div 7) p). b AND 128 \<noteq> 0)"
proof (induction p arbitrary: shift r)
  case Nil
  then show ?case by simp
next
  case (Cons b p)
  show ?case
  proof (cases "shift \<le> 28")
    case True
    then obtain k where k: "(35 - shift) div 7 = Suc k" "(35 - (shift + 7)) div 7 = k"
      by (cases "(35 - shift) div 7") auto
    show ?thesis using True Cons.IH [of "shift + 7"] k
      by (simp add: Let_def cont_u32)
  next
    case False
    then have "(35 - shift) div 7 = 0" by simp
    with False show ?thesis by simp
  qed
qed

lemma loop64_None:
  "GetVarint64_loop shift r p = None \<longleftrightarrow>
   (\<forall>b\<in>set (take ((70 - shift) div 7) p). b AND 128 \<noteq> 0)"
proof (induction p arbitrary: shift r)
  case Nil
  then show ?case by simp
next
  case (Cons b p)
  show ?case
  proof (cases "shift \<le> 63")
    case True
    then obtain k where k: "(70 - shift) div 7 = Suc k" "(70 - (shift + 7)) div 7 = k"
      by (cases "(70 - shift) div 7") auto
    show ?thesis using True Cons.IH [of "shift + 7"] k
      by (simp add: Let_def cont_u64)
  next
    case False
    then have "(70 - shift) div 7 = 0" by simp
    with False show ?thesis by simp
  qed
qed

text \<open>
  C8. Varint decode failure: \<open>GetVarint32PtrFallback\<close> returns \<open>nullptr\<close> exactly when
  every byte it may look at, the first five of the input or all of them when the input
  is shorter, has the continuation bit \<open>0x80\<close> set: either the input is exhausted before
  a byte without the bit is seen, or a sixth byte would be needed. \<open>GetVarint64Ptr\<close> does
  the same with ten bytes. In particular five (ten) bytes that all carry the continuation
  bit are rejected whatever follows them.
\<close>

theorem varint_decode_failure:
  "(GetVarint32PtrFallback p = None \<longleftrightarrow>
      (length p < 5 \<and> (\<forall>b\<in>set p. b AND 128 \<noteq> 0))
      \<or> (5 \<le> length p \<and> (\<forall>b\<in>set (take 5 p). b AND 128 \<noteq> 0)))
   \<and> (GetVarint64Ptr q = None \<longleftrightarrow>
      (length q < 10 \<and> (\<forall>b\<in>set q. b AND 128 \<noteq> 0))
      \<or> (10 \<le> length q \<and> (\<forall>b\<in>set (take 10 q). b AND 128 \<noteq> 0)))
   \<and> (length pre = 5 \<and> (\<forall>b\<in>set pre. b AND 128 \<noteq> 0) \<longrightarrow>
        GetVarint32PtrFallback (pre @ rest) = None)
   \<and> (length pre' = 10 \<and> (\<forall>b\<in>set pre'. b AND 128 \<noteq> 0) \<longrightarrow>
        GetVarint64Ptr (pre' @ rest') = None)"
proof -
  have a: "GetVarint32PtrFallback p = None \<longleftrightarrow> (\<forall>b\<in>set (take 5 p). b AND 128 \<noteq> 0)" for p
    by (simp add: GetVarint32PtrFallback_def loop32_None)
  have b: "GetVarint64Ptr q = None \<longleftrightarrow> (\<forall>b\<in>set (take 10 q). b AND 128 \<noteq> 0)" for q
    by (simp add: GetVarint64Ptr_def loop64_None)
  have c: "(\<forall>b\<in>set (take n xs). P b) \<longleftrightarrow>
      (length xs < n \<and> (\<forall>b\<in>set xs. P b)) \<or> (n \<le> length xs \<and> (\<forall>b\<in>set (take n xs). P b))"
    for n and xs :: bytes and P
    by (cases "length xs < n") auto
  show ?thesis
    using c [of 5 p "\<lambda>b. b AND 128 \<noteq> 0"] c [of 10 q "\<lambda>b. b AND 128 \<noteq> 0"]
    by (simp add: a b)
qed

theorem varint_decode_failure_witness:
  "GetVarint32PtrFallback [0x80, 0x80, 0x80] = None
   \<and> GetVarint32PtrFallback [0xFF, 0xFF, 0xFF, 0xFF, 0xFF, 0x01] = None
   \<and> GetVarint64Ptr [0x80, 0x80, 0x80, 0x80, 0x80, 0x80, 0x80, 0x80, 0x80, 0x80, 0x01] = None
   \<and> GetVarint32PtrFallback [0x80, 0x80, 0x80, 0x80, 0x01] \<noteq> None"
  using
    varint_decode_failure [of "[0x80, 0x80, 0x80]" "[]" "[]" "[]" "[]" "[]"]
    varint_decode_failure [of "[0x80, 0x80, 0x80, 0x80, 0x01]"
      "[0x80, 0x80, 0x80, 0x80, 0x80, 0x80, 0x80, 0x80, 0x80, 0x80, 0x01]"
      "[0xFF, 0xFF, 0xFF, 0xFF, 0xFF]" "[0x01]" "[]" "[]"]
  by simp


section \<open>Length-prefixed slices\<close>

text \<open>
  C9. The slice-consuming \<open>GetLengthPrefixedSlice\<close> is not atomic on failure: when the
  length prefix decodes to \<open>len\<close> with \<open>rest\<close> after it and \<open>rest\<close> holds fewer than
  \<open>len\<close> bytes, the result is \<open>false\<close> and \<open>*input\<close> is \<open>rest\<close>, shorter than the
  input given. \<open>GetVarint32\<close>, when its decoder fails, leaves \<open>*input\<close> as it was.
\<close>

theorem GetLengthPrefixedSlice_not_atomic:
  assumes "GetVarint32Ptr input = Some (len, rest)" and "length rest < unat len"
  shows "GetLengthPrefixedSlice input = (rest, None) \<and> length rest < length input
    \<and> (GetVarint32Ptr bad = None \<longrightarrow> GetVarint32 bad = (bad, None))"
proof -
  from assms(1) have g: "GetVarint32 input = (rest, Some len)"
    by (simp add: GetVarint32_def)
  with assms(2) have "GetLengthPrefixedSlice input = (rest, None)"
    by (simp add: GetLengthPrefixedSlice_def)
  moreover from g have "length rest < length input" by (rule GetVarint32_shorter)
  ultimately show ?thesis by (simp add: GetVarint32_def)
qed

theorem GetLengthPrefixedSlice_not_atomic_witness:
  "GetVarint32Ptr [5, 1, 2] = Some (5, [1, 2]) \<and> length [1, 2 :: u8] < unat (5 :: u32)
   \<and> GetLengthPrefixedSlice [5, 1, 2] = ([1, 2], None)
   \<and> GetVarint32 [0x80] = ([0x80], None)"
proof -
  have a: "GetVarint32Ptr [5, 1, 2] = Some (5, [1, 2])"
    by (simp add: GetVarint32Ptr_def GetVarint32PtrFallback_def)
  have b: "length [1, 2 :: u8] < unat (5 :: u32)" by simp
  have c: "GetVarint32Ptr [0x80] = None"
    by (simp add: GetVarint32Ptr_def GetVarint32PtrFallback_def)
  from GetLengthPrefixedSlice_not_atomic [OF a b, of "[0x80]"] a b c show ?thesis by simp
qed

subsection \<open>Fixed-width round trip\<close>

lemma DecodeFixed32_EncodeFixed32: "DecodeFixed32 (EncodeFixed32 v @ rest) = Some v"
  apply (simp add: EncodeFixed32_def)
  apply (rule bit_word_eqI)
  subgoal for n
    apply (simp add: bit_simps)
    apply (cases "n < 8"; cases "n < 16"; cases "n < 24"; auto)
    done
  done





section \<open>Write batch\<close>

subsection \<open>What a built batch holds and how it replays\<close>

lemma unat_of_nat32: "n < 2 ^ 32 \<Longrightarrow> unat (of_nat n :: u32) = n"
  by (simp add: unat_of_nat)

lemma GetLengthPrefixedSlice_encoded:
  "length k < 2 ^ 32 \<Longrightarrow>
   GetLengthPrefixedSlice (EncodeVarint32 (of_nat (length k)) @ k @ rest) = (rest, Some k)"
  by (simp add: GetLengthPrefixedSlice_def GetVarint32_def GetVarint32Ptr_def decode_encode
      unat_of_nat32)

lemma length_EncodeFixed32: "length (EncodeFixed32 v) = 4"
  by (simp add: EncodeFixed32_def)

lemma Count_header:
  "length hd8 = 8 \<Longrightarrow> Count \<lparr>rep = hd8 @ EncodeFixed32 c @ body\<rparr> = Some c"
  by (simp add: Count_def DecodeFixed32_EncodeFixed32)

lemma SetCount_header:
  "length hd8 = 8 \<Longrightarrow>
   SetCount \<lparr>rep = hd8 @ EncodeFixed32 c @ body\<rparr> n = Some \<lparr>rep = hd8 @ EncodeFixed32 n @ body\<rparr>"
  by (simp add: SetCount_def length_EncodeFixed32)

lemma apply_op_header:
  "length hd8 = 8 \<Longrightarrow>
   apply_op \<lparr>rep = hd8 @ EncodeFixed32 c @ body\<rparr> x
     = Some \<lparr>rep = hd8 @ EncodeFixed32 (c + 1) @ body @ enc_op x\<rparr>"
  by (cases x) (simp_all add: WriteBatch_Put_def WriteBatch_Delete_def Count_header
      SetCount_header PutLengthPrefixedSlice_def PutVarint32_def)

lemma apply_ops_header:
  "length hd8 = 8 \<Longrightarrow>
   apply_ops \<lparr>rep = hd8 @ EncodeFixed32 c @ body\<rparr> ops
     = Some \<lparr>rep = hd8 @ EncodeFixed32 (c + of_nat (length ops)) @ body
         @ concat (map enc_op ops)\<rparr>"
proof (induction ops arbitrary: c body)
  case Nil
  then show ?case by simp
next
  case (Cons x ops)
  have "c + 1 + of_nat (length ops) = c + (1 + of_nat (length ops))" by simp
  with Cons.IH [OF Cons.prems, of "c + 1" "body @ enc_op x"] Cons.prems
  show ?case by (simp add: apply_op_header)
qed

lemma WriteBatch_new_rep: "WriteBatch_new = \<lparr>rep = replicate 8 0 @ EncodeFixed32 0 @ []\<rparr>"
  by (simp add: WriteBatch_new_def Clear_def kHeader_def EncodeFixed32_def numeral_eq_Suc)

lemma apply_ops_new:
  "apply_ops WriteBatch_new ops
     = Some \<lparr>rep = replicate 8 0 @ EncodeFixed32 (of_nat (length ops)) @ concat (map enc_op ops)\<rparr>"
  using apply_ops_header [of "replicate 8 0" 0 "[]" ops]
  by (simp add: WriteBatch_new_rep)

lemma Recorder_Put: "handler_Put Recorder h k v = h @ [OpPut k v]"
  by (simp add: Recorder_def)

lemma Recorder_Delete: "handler_Delete Recorder h k = h @ [OpDelete k]"
  by (simp add: Recorder_def)

lemma Iterate_loop_encoded:
  "\<forall>x\<in>set ops. op_fits x \<Longrightarrow>
   Iterate_loop Recorder (concat (map enc_op ops)) found h
     = (Inr (found + of_nat (length ops)), h @ ops)"
proof (induction ops arbitrary: found h)
  case Nil
  then show ?case by (simp add: Iterate_loop.simps)
next
  case (Cons x ops)
  then have fits: "op_fits x" and rest: "\<forall>x\<in>set ops. op_fits x" by simp_all
  have assoc: "found + 1 + of_nat (length ops) = found + (1 + of_nat (length ops))" by simp
  show ?case
  proof (cases x)
    case (OpPut k v)
    with fits have "length k < 2 ^ 32" "length v < 2 ^ 32" by simp_all
    then show ?thesis
      using Cons.IH [OF rest, of "found + 1" "h @ [x]"] OpPut assoc
      by (simp add: Iterate_loop.simps GetLengthPrefixedSlice_encoded Recorder_Put
          kTypeValue_def)
  next
    case (OpDelete k)
    with fits have "length k < 2 ^ 32" by simp
    then show ?thesis
      using Cons.IH [OF rest, of "found + 1" "h @ [x]"] OpDelete assoc
      by (simp add: Iterate_loop.simps GetLengthPrefixedSlice_encoded Recorder_Delete
          kTypeValue_def kTypeDeletion_def)
  qed
qed

lemma built_count_value: "built_count ops = Some (length ops mod 2 ^ 32)"
proof -
  have "Count \<lparr>rep = replicate 8 0 @ EncodeFixed32 (of_nat (length ops))
      @ concat (map enc_op ops)\<rparr> = Some (of_nat (length ops))"
    by (simp add: Count_header)
  then show ?thesis
    by (simp add: built_count_def apply_ops_new unat_of_nat)
qed

text \<open>
  C1 as stated ("the header count field equals the number of operations", for every
  finite sequence) fails on a sequence of \<open>2\<^sup>3\<^sup>2\<close> operations: the count is a
  fixed32 that \<open>Put\<close> and \<open>Delete\<close> increment, and after \<open>2\<^sup>3\<^sup>2\<close> deletions of
  the empty key it is 0 again.
\<close>

theorem batch_count_counterexample:
  "built_count (replicate (2 ^ 32) (OpDelete [])) = Some 0
   \<and> length (replicate (2 ^ 32) (OpDelete [])) = 2 ^ 32
   \<and> op_fits (OpDelete [])"
  using built_count_value [of "replicate (2 ^ 32) (OpDelete [])"] by simp

text \<open>
  C1, amended. Batch round trip: for every finite sequence of put and delete operations
  whose keys and values fit a varint32 length prefix (the spec's domain of keys and
  values), applied to a freshly constructed batch, \<open>Iterate\<close> with a recording handler
  returns OK and has dispatched exactly these operations, in the order of the calls,
  with the same key and value bytes; the count field of the header is the number of
  operations modulo \<open>2\<^sup>3\<^sup>2\<close>, hence the number itself when there are fewer than
  \<open>2\<^sup>3\<^sup>2\<close> operations.
\<close>

theorem batch_roundtrip:
  assumes "\<forall>x\<in>set ops. op_fits x"
  shows "replay ops = Some (OK, ops)
    \<and> built_count ops = Some (length ops mod 2 ^ 32)
    \<and> (length ops < 2 ^ 32 \<longrightarrow> built_count ops = Some (length ops))"
proof -
  let ?b = "\<lparr>rep = replicate 8 0 @ EncodeFixed32 (of_nat (length ops)) @ concat (map enc_op ops)\<rparr>"
  have cnt: "Count ?b = Some (of_nat (length ops))"
    by (simp add: Count_header)
  have it: "Iterate Recorder ?b [] = Some (OK, ops)"
    using Iterate_loop_encoded [OF assms(1), of 0 "[]"] cnt
    by (simp add: Iterate_def kHeader_def length_EncodeFixed32)
  show ?thesis
    using it by (simp add: replay_def apply_ops_new built_count_value)
qed

theorem batch_roundtrip_witness:
  "replay [OpPut [0x6B, 0x31] [0x76, 0x31], OpDelete [0x6B, 0x32]]
     = Some (OK, [OpPut [0x6B, 0x31] [0x76, 0x31], OpDelete [0x6B, 0x32]])
   \<and> built_count [OpPut [0x6B, 0x31] [0x76, 0x31], OpDelete [0x6B, 0x32]] = Some 2"
  using batch_roundtrip [of "[OpPut [0x6B, 0x31] [0x76, 0x31], OpDelete [0x6B, 0x32]]"]
  by simp

subsection \<open>The decoders of coding.cc read the format of the spec\<close>

lemma spec_varint32_shorter: "spec_varint32 n p = Parsed v r \<Longrightarrow> length r < length p"
proof (induction n p arbitrary: v r rule: spec_varint32.induct)
  case (1 p)
  then show ?case by simp
next
  case (2 n)
  then show ?case by simp
next
  case (3 n b p)
  show ?case
  proof (cases "unat b < 128")
    case True
    with 3(2) show ?thesis by auto
  next
    case False
    with 3(2) obtain v' where "spec_varint32 n p = Parsed v' r"
      by (auto split: varint_parse.splits)
    from 3(1) [OF False this] show ?thesis by simp
  qed
qed








lemma spec_varstring_shorter: "spec_varstring p = Varstring s r \<Longrightarrow> length r < length p"
  by (auto simp: spec_varstring_def Let_def split: varint_parse.splits if_splits
      dest: spec_varint32_shorter)

lemma spec_record_shorter: "spec_record x = Complete r \<Longrightarrow> length r + 2 \<le> length x"
  by (cases x)
    (auto split: if_splits varstring_parse.splits dest!: spec_varstring_shorter)

subsection \<open>When Iterate reports corruption\<close>





lemma spec_records_bound: "spec_records n input = Some r \<Longrightarrow> 2 * n + length r \<le> length input"
proof (induction n arbitrary: input)
  case 0
  then show ?case by simp
next
  case (Suc n)
  then obtain r1 where r1: "spec_record input = Complete r1" "spec_records n r1 = Some r"
    by (auto split: record_parse.splits)
  from Suc.IH [OF r1(2)] spec_record_shorter [OF r1(1)] show ?case by simp
qed













section \<open>Arena\<close>

text \<open>
  C6. Arena allocation policy: for \<open>n > 0\<close>, if \<open>n\<close> is at most
  \<open>alloc_bytes_remaining\<close> the bytes come from the current block, at \<open>alloc_ptr\<close>, and
  the pointer advances by \<open>n\<close>; otherwise, if \<open>n > 4096 / 4\<close>, a new block of exactly
  \<open>n\<close> bytes is allocated and returned, \<open>alloc_ptr\<close> and \<open>alloc_bytes_remaining\<close> are
  untouched, so a later allocation that fits the old remainder is still served at the
  old \<open>alloc_ptr\<close>; else a new block of 4096 bytes becomes the current block (the old
  remainder is no longer reachable) and serves the \<open>n\<close> bytes. Each new block adds its
  size plus one pointer size to \<open>memory_usage\<close>.
\<close>

theorem Arena_allocation_policy:
  assumes "0 < n"
  shows "(n \<le> alloc_bytes_remaining a \<longrightarrow>
            Allocate psz a n =
              Some (alloc_ptr a,
                    a\<lparr>alloc_ptr := ptr_add (alloc_ptr a) n,
                      alloc_bytes_remaining := alloc_bytes_remaining a - n\<rparr>))
       \<and> (alloc_bytes_remaining a < n \<and> 4096 div 4 < n \<longrightarrow>
            Allocate psz a n =
              Some (Ptr (length (blocks a)) 0,
                    a\<lparr>blocks := blocks a @ [n],
                      memory_usage := memory_usage a + (n + psz)\<rparr>)
            \<and> (\<forall>m. 0 < m \<and> m \<le> alloc_bytes_remaining a \<longrightarrow>
                  map_option fst
                    (Allocate psz (a\<lparr>blocks := blocks a @ [n],
                                    memory_usage := memory_usage a + (n + psz)\<rparr>) m)
                  = Some (alloc_ptr a)))
       \<and> (alloc_bytes_remaining a < n \<and> n \<le> 4096 div 4 \<longrightarrow>
            Allocate psz a n =
              Some (Ptr (length (blocks a)) 0,
                    a\<lparr>alloc_ptr := Ptr (length (blocks a)) n,
                      alloc_bytes_remaining := 4096 - n,
                      blocks := blocks a @ [4096],
                      memory_usage := memory_usage a + (4096 + psz)\<rparr>))"
  using assms
  by (simp add: Allocate_def AllocateFallback_def AllocateNewBlock_def Arena_kBlockSize_def
      Let_def)

theorem Arena_allocation_policy_witness:
  "Allocate 8 Arena_new 100 =
     Some (Ptr 0 0, \<lparr>alloc_ptr = Ptr 0 100, alloc_bytes_remaining = 3996, blocks = [4096],
                     memory_usage = 4104\<rparr>)
   \<and> Allocate 8 \<lparr>alloc_ptr = Ptr 0 100, alloc_bytes_remaining = 3996, blocks = [4096],
                  memory_usage = 4104\<rparr> 5000 =
     Some (Ptr 1 0, \<lparr>alloc_ptr = Ptr 0 100, alloc_bytes_remaining = 3996,
                     blocks = [4096, 5000], memory_usage = 9112\<rparr>)
   \<and> Allocate 8 \<lparr>alloc_ptr = Ptr 0 100, alloc_bytes_remaining = 3996,
                  blocks = [4096, 5000], memory_usage = 9112\<rparr> 10 =
     Some (Ptr 0 100, \<lparr>alloc_ptr = Ptr 0 110, alloc_bytes_remaining = 3986,
                       blocks = [4096, 5000], memory_usage = 9112\<rparr>)"
  using Arena_allocation_policy [of 100 Arena_new 8]
    Arena_allocation_policy [of 5000 "\<lparr>alloc_ptr = Ptr 0 100, alloc_bytes_remaining = 3996,
      blocks = [4096], memory_usage = 4104\<rparr>" 8]
    Arena_allocation_policy [of 10 "\<lparr>alloc_ptr = Ptr 0 100, alloc_bytes_remaining = 3996,
      blocks = [4096, 5000], memory_usage = 9112\<rparr>" 8]
  by (simp add: Arena_new_def)

section \<open>Log writer\<close>

subsection \<open>One fragment written to a file in memory\<close>

lemma Emit_StringDest:
  "length data \<le> 65535 \<Longrightarrow> block_offset w + 7 + int (length data) \<le> 32768 \<Longrightarrow>
   EmitPhysicalRecord StringDest C w t data =
     Some (OK, w\<lparr>dest := dest w
                  @ EncodeFixed32 (Mask (crc_Extend C (type_crc w ! RecordType_val t) data))
                  @ [of_nat (length data AND 255), of_nat (drop_bit 8 (length data)),
                     of_nat (RecordType_val t)]
                  @ data,
                block_offset := block_offset w + 7 + int (length data)\<rparr>)"
  by (simp add: EmitPhysicalRecord_def StringDest_def Let_def ok_def kHeaderSize_def
      kBlockSize_def)

text \<open>
  C4. WAL fragmentation: \<open>AddRecord\<close> of a payload of 40,000 bytes on a writer with
  \<open>block_offset = 0\<close>, on a file that accepts every write, appends exactly two fragments:
  a header of type FIRST (2) with length field 32,761 (bytes \<open>0xF9 0x7F\<close>) and the first
  32,761 bytes of the payload, together 32,768 bytes, then a header of type LAST (4) with
  length field 7,239 (bytes \<open>0x47 0x1C\<close>) and the remaining 7,239 bytes. The status is
  OK and the offset in the second block is 7,246.
\<close>

theorem WAL_fragmentation:
  assumes "length payload = 40000" and "block_offset w = 0"
  shows "AddRecord StringDest C w payload =
     Some (OK, w\<lparr>dest := dest w
                  @ (EncodeFixed32 (Mask (crc_Extend C (type_crc w ! 2) (take 32761 payload)))
                     @ [0xF9, 0x7F, 2] @ take 32761 payload)
                  @ (EncodeFixed32 (Mask (crc_Extend C (type_crc w ! 4) (drop 32761 payload)))
                     @ [0x47, 0x1C, 4] @ drop 32761 payload),
                block_offset := 7246\<rparr>)
     \<and> length (EncodeFixed32 (Mask (crc_Extend C (type_crc w ! 2) (take 32761 payload)))
                @ [0xF9, 0x7F, 2] @ take 32761 payload) = 32768
     \<and> length (drop 32761 payload) = 7239"
proof -
  let ?h1 = "EncodeFixed32 (Mask (crc_Extend C (type_crc w ! 2) (take 32761 payload)))
               @ [0xF9, 0x7F, 2]"
  let ?w2 = "w\<lparr>dest := dest w @ ?h1 @ take 32761 payload, block_offset := 32768\<rparr>"
  have l1: "length (take 32761 payload) = 32761" using assms(1) by simp
  have l2: "length (drop 32761 payload) = 7239" using assms(1) by simp
  have e1: "EmitPhysicalRecord StringDest C w kFirstType (take 32761 payload) = Some (OK, ?w2)"
    using Emit_StringDest [of "take 32761 payload" w C kFirstType] assms(2)
    by (simp add: assms(1))
  let ?w3 = "w\<lparr>dest := dest w @ ?h1 @ take 32761 payload
                  @ EncodeFixed32 (Mask (crc_Extend C (type_crc w ! 4) (drop 32761 payload)))
                  @ [0x47, 0x1C, 4] @ drop 32761 payload,
                block_offset := 7246\<rparr>"
  have e2: "EmitPhysicalRecord StringDest C
        (w\<lparr>dest := dest w @ ?h1 @ take 32761 payload, block_offset := 0\<rparr>) kLastType
        (drop 32761 payload) = Some (OK, ?w3)"
    using Emit_StringDest [of "drop 32761 payload"
        "w\<lparr>dest := dest w @ ?h1 @ take 32761 payload, block_offset := 0\<rparr>" C kLastType]
    by (simp add: assms(1))
  have s2: "AddRecord_loop StringDest C ?w2 (drop 32761 payload) False = Some (OK, ?w3)"
    apply (subst AddRecord_loop.simps)
    apply (simp add: kBlockSize_def kHeaderSize_def switch_block_def assms(1) Let_def
        e2 [simplified] ok_def)
    done
  have s1: "AddRecord_loop StringDest C w payload True =
      AddRecord_loop StringDest C ?w2 (drop 32761 payload) False"
    apply (subst AddRecord_loop.simps)
    apply (simp add: kBlockSize_def kHeaderSize_def assms Let_def e1 ok_def)
    done
  show ?thesis
    using s1 s2 by (simp add: AddRecord_def assms(1) length_EncodeFixed32)
qed


theorem WAL_fragmentation_witness:
  "length (replicate 40000 (0::u8)) = 40000
   \<and> block_offset (Writer_new \<lparr>crc_Value = (\<lambda>d. 0), crc_Extend = (\<lambda>c d. c)\<rparr> ([]::bytes)) = 0
   \<and> map_option (\<lambda>(s, w'). (s, length (dest w'), block_offset w'))
        (AddRecord StringDest \<lparr>crc_Value = (\<lambda>d. 0), crc_Extend = (\<lambda>c d. c)\<rparr>
           (Writer_new \<lparr>crc_Value = (\<lambda>d. 0), crc_Extend = (\<lambda>c d. c)\<rparr> [])
           (replicate 40000 0))
      = Some (OK, 40014, 7246)"
proof -
  let ?C = "\<lparr>crc_Value = (\<lambda>d. 0), crc_Extend = (\<lambda>c d. c)\<rparr>"
  have a: "length (replicate 40000 (0::u8)) = 40000" by simp
  have b: "block_offset (Writer_new ?C ([]::bytes)) = 0" by (simp add: Writer_new_def)
  from WAL_fragmentation [OF a b, of ?C] a b show ?thesis
    by (simp add: length_EncodeFixed32 Writer_new_def)
qed

subsection \<open>One iteration of the loop, and its termination with status OK\<close>

lemma and_255: "(n::nat) AND 255 = n mod 256"
proof -
  have m: "(255::nat) = mask 8" by (simp add: mask_eq_exp_minus_1)
  show ?thesis unfolding m by (simp add: take_bit_eq_mask [symmetric] take_bit_eq_mod)
qed

lemma drop_8: "drop_bit 8 (n::nat) = n div 256"
  by (simp add: drop_bit_eq_div)

lemma Emit_fragment:
  "length data \<le> 65535 \<Longrightarrow> block_offset w + 7 + int (length data) \<le> 32768 \<Longrightarrow>
   EmitPhysicalRecord StringDest C w t data =
     Some (OK, w\<lparr>dest := dest w @ fragment_bytes C (type_crc w) t data,
                block_offset := block_offset w + 7 + int (length data)\<rparr>)"
  using Emit_StringDest [of data w C t]
  by (simp add: fragment_bytes_def and_255 drop_8)

lemma AddRecord_loop_step:
  assumes "0 \<le> block_offset w" and "block_offset w \<le> 32768"
  shows "AddRecord_loop StringDest C w ptr b =
     (let w1 = padded w;
          avail = nat (32761 - block_offset w1);
          frag = take avail ptr;
          w2 = w1\<lparr>dest := dest w1
                  @ fragment_bytes C (type_crc w) (fragment_type b (length ptr \<le> avail)) frag,
                block_offset := block_offset w1 + 7 + int (length frag)\<rparr>
      in if avail < length ptr then AddRecord_loop StringDest C w2 (drop avail ptr) False
         else Some (OK, w2))"
proof (cases "32768 - block_offset w < 7")
  case True
  with assms have n: "nat (32768 - block_offset w) \<le> 6" by simp
  have sw: "switch_block StringDest w (32768 - block_offset w) = padded w"
    using True assms n by (auto simp: switch_block_def StringDest_def Let_def padded_def)
  have p: "block_offset (padded w) = 0" "type_crc (padded w) = type_crc w"
    using True by (simp_all add: padded_def)
  show ?thesis
    apply (rule trans [OF AddRecord_loop.simps])
    using True assms
    apply (simp add: kBlockSize_def kHeaderSize_def sw Let_def p)
    apply (cases "length ptr < 32761")
     apply (simp add: Emit_fragment p fragment_type_def ok_def)
    apply (simp add: Emit_fragment p fragment_type_def ok_def)
    done
next
  case False
  have p: "padded w = w" using False by (simp add: padded_def)
  from False assms have av: "0 \<le> 32761 - block_offset w" "32761 - block_offset w \<le> 32761"
    by simp_all
  show ?thesis
    apply (rule trans [OF AddRecord_loop.simps])
    using False assms av
    apply (simp add: kBlockSize_def kHeaderSize_def Let_def p)
    apply (cases "length ptr < nat (32761 - block_offset w)")
     apply (simp add: Emit_fragment fragment_type_def ok_def)
    apply (simp add: Emit_fragment fragment_type_def ok_def)
    done
qed


lemma padded_props:
  assumes "0 \<le> block_offset w" and "block_offset w \<le> 32768"
  shows "0 \<le> block_offset (padded w)" and "block_offset (padded w) \<le> 32761"
    and "type_crc (padded w) = type_crc w"
  using assms by (auto simp: padded_def)

text \<open>
  When the loop goes on after a fragment, the fragment has filled its block: every
  iteration but the first starts at \<open>block_offset = kBlockSize\<close>.
\<close>

lemma AddRecord_loop_continuation:
  assumes "0 \<le> block_offset w" and "block_offset w \<le> 32768"
    and "nat (32761 - block_offset (padded w)) < length ptr"
  shows "\<exists>w2. AddRecord_loop StringDest C w ptr b
        = AddRecord_loop StringDest C w2 (drop (nat (32761 - block_offset (padded w))) ptr) False
     \<and> block_offset w2 = kBlockSize"
proof -
  let ?avail = "nat (32761 - block_offset (padded w))"
  let ?w2 = "(padded w)\<lparr>dest := dest (padded w)
        @ fragment_bytes C (type_crc w) (fragment_type b (length ptr \<le> ?avail)) (take ?avail ptr),
      block_offset := block_offset (padded w) + 7 + int (length (take ?avail ptr))\<rparr>"
  have "AddRecord_loop StringDest C w ptr b
      = AddRecord_loop StringDest C ?w2 (drop ?avail ptr) False"
    using AddRecord_loop_step [OF assms(1,2), of C ptr b] assms(3)
    by (simp add: Let_def)
  moreover have "block_offset ?w2 = kBlockSize"
    using padded_props(1,2) [OF assms(1,2)] assms(3) by (simp add: kBlockSize_def)
  ultimately show ?thesis by (intro exI [of _ ?w2] conjI)
qed

lemma AddRecord_loop_total:
  "0 \<le> block_offset w \<Longrightarrow> block_offset w \<le> 32768 \<Longrightarrow>
   \<exists>w' tail. AddRecord_loop StringDest C w ptr b = Some (OK, w') \<and> dest w' = dest w @ tail"
proof (induction "2 * length ptr + (if block_offset w = 32761 then 1 else 0 :: nat)"
    arbitrary: w ptr b rule: less_induct)
  case less
  define w1 where "w1 = padded w"
  define avail where "avail = nat (32761 - block_offset w1)"
  define frag where "frag = take avail ptr"
  define w2 where "w2 = w1\<lparr>dest := dest w1
        @ fragment_bytes C (type_crc w) (fragment_type b (length ptr \<le> avail)) frag,
      block_offset := block_offset w1 + 7 + int (length frag)\<rparr>"
  have step: "AddRecord_loop StringDest C w ptr b =
      (if avail < length ptr then AddRecord_loop StringDest C w2 (drop avail ptr) False
       else Some (OK, w2))"
    using AddRecord_loop_step [OF less.prems, of C ptr b]
    by (simp add: Let_def w1_def avail_def frag_def w2_def)
  have b1: "0 \<le> block_offset w1" "block_offset w1 \<le> 32761"
    using padded_props [OF less.prems] by (simp_all add: w1_def)
  obtain pad where d1: "dest w1 = dest w @ pad"
    by (cases "32768 - block_offset w < 7") (simp_all add: w1_def padded_def)
  have d2: "dest w2 = dest w @ pad
      @ fragment_bytes C (type_crc w) (fragment_type b (length ptr \<le> avail)) frag"
    by (simp add: w2_def d1)
  show ?case
  proof (cases "avail < length ptr")
    case False
    then show ?thesis using step d2 by simp
  next
    case True
    then have lf: "length frag = avail" by (simp add: frag_def)
    have o2: "block_offset w2 = 32768"
      using b1 by (simp add: w2_def lf avail_def)
    have m: "2 * length (drop avail ptr) + (if block_offset w2 = 32761 then 1 else 0 :: nat)
        < 2 * length ptr + (if block_offset w = 32761 then 1 else 0)"
    proof (cases "avail = 0")
      case False
      then show ?thesis using True by (simp add: o2)
    next
      case z: True
      then have "block_offset w1 = 32761" using b1 by (simp add: avail_def)
      then have "block_offset w = 32761"
        by (cases "32768 - block_offset w < 7") (simp_all add: w1_def padded_def)
      then show ?thesis by (simp add: o2 z)
    qed
    have "\<exists>w' tail. AddRecord_loop StringDest C w2 (drop avail ptr) False = Some (OK, w')
        \<and> dest w' = dest w2 @ tail"
      by (rule less.hyps [OF m]) (simp_all add: o2)
    then obtain w' tail
      where r: "AddRecord_loop StringDest C w2 (drop avail ptr) False = Some (OK, w')"
        and t: "dest w' = dest w2 @ tail"
      by (elim exE conjE)
    show ?thesis using step True r t d2 by simp
  qed
qed

text \<open>
  C7. WAL block padding: when an iteration of the loop of \<open>AddRecord\<close> starts with fewer
  than 7 bytes left in the block, on a file that accepts every write, \<open>AddRecord\<close>
  returns OK and what it has appended to the file begins with exactly
  \<open>kBlockSize - block_offset\<close> zero bytes, followed at once by the next fragment: its
  7-byte header (masked CRC, length, type chosen from the position in the record) and
  its payload, the first 32,761 bytes of what remains of the record or all of it when
  it is shorter. When the file length agreed with \<open>block_offset\<close> modulo the block size,
  the length after the zero bytes is a multiple of 32,768, so this header starts at
  offset 0 of a new block.
\<close>

theorem WAL_block_padding:
  assumes "kBlockSize - block_offset w < 7" and "block_offset w \<le> kBlockSize"
  shows "\<exists>w' tail. AddRecord_loop StringDest C w ptr b = Some (OK, w')
     \<and> dest w' = dest w @ replicate (nat (kBlockSize - block_offset w)) 0
          @ fragment_bytes C (type_crc w) (fragment_type b (length ptr \<le> 32761))
              (take 32761 ptr)
          @ tail
     \<and> (int (length (dest w)) mod kBlockSize = block_offset w mod kBlockSize \<longrightarrow>
          int (length (dest w @ replicate (nat (kBlockSize - block_offset w)) 0))
            mod kBlockSize = 0)"
proof -
  from assms have bo: "0 \<le> block_offset w" "block_offset w \<le> 32768"
      and lt: "32768 - block_offset w < 7"
    by (simp_all add: kBlockSize_def)
  define w1 where "w1 = padded w"
  have w1: "w1 = w\<lparr>dest := dest w @ replicate (nat (32768 - block_offset w)) 0,
      block_offset := 0\<rparr>"
    using lt by (simp add: w1_def padded_def)
  define w2 where "w2 = w1\<lparr>dest := dest w1
        @ fragment_bytes C (type_crc w) (fragment_type b (length ptr \<le> 32761))
            (take 32761 ptr),
      block_offset := 7 + int (length (take 32761 ptr))\<rparr>"
  have step: "AddRecord_loop StringDest C w ptr b =
      (if 32761 < length ptr then AddRecord_loop StringDest C w2 (drop 32761 ptr) False
       else Some (OK, w2))"
    using AddRecord_loop_step [OF bo, of C ptr b]
    by (simp add: Let_def w1_def [symmetric] w2_def) (simp add: w1)
  have d2: "dest w2 = dest w @ replicate (nat (kBlockSize - block_offset w)) 0
      @ fragment_bytes C (type_crc w) (fragment_type b (length ptr \<le> 32761)) (take 32761 ptr)"
    by (simp add: w2_def w1 kBlockSize_def)
  have al: "int (length (dest w)) mod kBlockSize = block_offset w mod kBlockSize \<longrightarrow>
      int (length (dest w @ replicate (nat (kBlockSize - block_offset w)) 0)) mod kBlockSize = 0"
  proof
    assume a: "int (length (dest w)) mod kBlockSize = block_offset w mod kBlockSize"
    have "int (length (dest w @ replicate (nat (kBlockSize - block_offset w)) 0))
        = int (length (dest w)) + (kBlockSize - block_offset w)"
      using assms by simp
    also have "\<dots> mod kBlockSize
        = (int (length (dest w)) mod kBlockSize + (kBlockSize - block_offset w)) mod kBlockSize"
      by (simp add: mod_add_left_eq)
    also have "\<dots> = (block_offset w mod kBlockSize + (kBlockSize - block_offset w)) mod kBlockSize"
      by (simp only: a)
    also have "\<dots> = (block_offset w + (kBlockSize - block_offset w)) mod kBlockSize"
      by (simp only: mod_add_left_eq)
    also have "\<dots> = 0" by simp
    finally show "int (length (dest w @ replicate (nat (kBlockSize - block_offset w)) 0))
        mod kBlockSize = 0" .
  qed
  show ?thesis
  proof (cases "32761 < length ptr")
    case False
    then show ?thesis using step d2 al by simp
  next
    case True
    have "0 \<le> block_offset w2" "block_offset w2 \<le> 32768"
      using True by (simp_all add: w2_def)
    from AddRecord_loop_total [OF this, of C "drop 32761 ptr" False] obtain w' tail
      where r: "AddRecord_loop StringDest C w2 (drop 32761 ptr) False = Some (OK, w')"
        and t: "dest w' = dest w2 @ tail"
      by auto
    have f1: "AddRecord_loop StringDest C w ptr b = Some (OK, w')" using step True r by simp
    have f2: "dest w' = dest w @ replicate (nat (kBlockSize - block_offset w)) 0
      @ fragment_bytes C (type_crc w) (fragment_type b (length ptr \<le> 32761)) (take 32761 ptr)
      @ tail"
      using t d2 by simp
    show ?thesis
      apply (rule exI [of _ w'])
      apply (rule exI [of _ tail])
      apply (intro conjI)
        apply (rule f1)
       apply (rule f2)
      apply (rule al)
      done
  qed
qed

theorem WAL_block_padding_witness:
  "kBlockSize - block_offset \<lparr>dest = replicate 32765 (0::u8), block_offset = 32765,
       type_crc = [0, 0, 0, 0, 0]\<rparr> < 7
   \<and> block_offset \<lparr>dest = replicate 32765 (0::u8), block_offset = 32765,
       type_crc = [0, 0, 0, 0, 0]\<rparr> \<le> kBlockSize
   \<and> AddRecord_loop StringDest \<lparr>crc_Value = (\<lambda>d. 0), crc_Extend = (\<lambda>c d. c)\<rparr>
        \<lparr>dest = replicate 32765 0, block_offset = 32765, type_crc = [0, 0, 0, 0, 0]\<rparr>
        [1] True
     = Some (OK, \<lparr>dest = replicate 32765 0 @ replicate 3 0
                     @ [0xd8, 0xea, 0x82, 0xa2, 1, 0, 1] @ [1],
                   block_offset = 8, type_crc = [0, 0, 0, 0, 0]\<rparr>)
   \<and> fragment_bytes \<lparr>crc_Value = (\<lambda>d. 0), crc_Extend = (\<lambda>c d. c)\<rparr> [0, 0, 0, 0, 0]
        (fragment_type True True) [1] = [0xd8, 0xea, 0x82, 0xa2, 1, 0, 1] @ [1]
   \<and> int (length (replicate 32765 (0::u8) @ replicate 3 0)) mod kBlockSize = 0"
proof -
  let ?C = "\<lparr>crc_Value = (\<lambda>d. 0), crc_Extend = (\<lambda>c d. c)\<rparr>"
  let ?w = "\<lparr>dest = replicate 32765 (0::u8), block_offset = 32765,
       type_crc = [0, 0, 0, 0, 0]\<rparr>"
  have h: "kBlockSize - block_offset ?w < 7" "block_offset ?w \<le> kBlockSize"
    by (simp_all add: kBlockSize_def)
  have fb: "fragment_bytes ?C [0, 0, 0, 0, 0] (fragment_type True True) [1]
      = [0xd8, 0xea, 0x82, 0xa2, 1, 0, 1] @ [1]"
    by (simp add: fragment_bytes_def fragment_type_def EncodeFixed32_def Mask_def)
  from WAL_block_padding [OF h, of ?C "[1]" True] obtain w' tail
    where r: "AddRecord_loop StringDest ?C ?w [1] True = Some (OK, w')"
      and d: "dest w' = replicate 32765 0 @ replicate 3 0
          @ ([0xd8, 0xea, 0x82, 0xa2, 1, 0, 1] @ [1]) @ tail"
      and al: "int (length (replicate 32765 (0::u8) @ replicate 3 0)) mod kBlockSize = 0"
    by (simp add: fb) (auto simp: kBlockSize_def)
  have "AddRecord_loop StringDest ?C ?w [1] True
      = Some (OK, \<lparr>dest = replicate 32765 0 @ replicate 3 0
                     @ [0xd8, 0xea, 0x82, 0xa2, 1, 0, 1] @ [1],
                   block_offset = 8, type_crc = [0, 0, 0, 0, 0]\<rparr>)"
    using AddRecord_loop_step [of ?w ?C "[1]" True]
    by (simp add: padded_def Let_def fb [simplified])
  with h fb al show ?thesis by simp
qed

text \<open>
  C10. \<open>AddRecord\<close> of a non-empty payload on a writer at \<open>block_offset = kBlockSize - 7\<close>,
  on a file that accepts every write, returns OK and appends first a fragment that is
  a header alone: masked CRC, length field 0 (bytes \<open>0x00 0x00\<close>) and type FIRST (2).
  The payload follows in the next fragment, of type LAST when at most 32,761 bytes
  and MIDDLE otherwise, which holds the first 32,761 bytes of the payload or all of it.
  (Every later iteration of the loop starts at \<open>block_offset = kBlockSize\<close>, see
  \<open>AddRecord_loop_continuation\<close>, so only the first fragment of a record can be
  empty in this way.)
\<close>

theorem WAL_zero_length_fragment:
  assumes "block_offset w = kBlockSize - kHeaderSize" and "payload \<noteq> []"
  shows "\<exists>w' tail. AddRecord StringDest C w payload = Some (OK, w')
     \<and> dest w' = dest w
          @ EncodeFixed32 (Mask (crc_Extend C (type_crc w ! RecordType_val kFirstType) []))
          @ [0, 0, of_nat (RecordType_val kFirstType)]
          @ fragment_bytes C (type_crc w)
              (if length payload \<le> 32761 then kLastType else kMiddleType)
              (take 32761 payload)
          @ tail"
proof -
  from assms have bo: "0 \<le> block_offset w" "block_offset w \<le> 32768"
      and eq: "block_offset w = 32761"
    by (simp_all add: kBlockSize_def kHeaderSize_def)
  have p: "padded w = w" by (simp add: padded_def eq)
  define w2 where "w2 = w\<lparr>dest := dest w @ fragment_bytes C (type_crc w) kFirstType [],
      block_offset := 32768\<rparr>"
  have s1: "AddRecord StringDest C w payload = AddRecord_loop StringDest C w2 payload False"
    using AddRecord_loop_step [OF bo, of C payload True] assms(2)
    by (simp add: AddRecord_def Let_def p eq w2_def fragment_type_def)
  have bo2: "0 \<le> block_offset w2" "block_offset w2 \<le> 32768" by (simp_all add: w2_def)
  have lt: "32768 - block_offset w2 < 7" by (simp add: w2_def)
  have p2: "padded w2 = w2\<lparr>block_offset := 0\<rparr>"
    by (simp add: padded_def w2_def)
  define w3 where "w3 = w2\<lparr>dest := dest w2
        @ fragment_bytes C (type_crc w) (if length payload \<le> 32761 then kLastType else kMiddleType)
            (take 32761 payload),
      block_offset := 7 + int (length (take 32761 payload))\<rparr>"
  have s2: "AddRecord_loop StringDest C w2 payload False =
      (if 32761 < length payload then AddRecord_loop StringDest C w3 (drop 32761 payload) False
       else Some (OK, w3))"
    using AddRecord_loop_step [OF bo2, of C payload False]
    by (simp add: Let_def p2 fragment_type_def w3_def) (simp add: w2_def)
  have d3: "dest w3 = dest w
      @ EncodeFixed32 (Mask (crc_Extend C (type_crc w ! RecordType_val kFirstType) []))
      @ [0, 0, of_nat (RecordType_val kFirstType)]
      @ fragment_bytes C (type_crc w) (if length payload \<le> 32761 then kLastType else kMiddleType)
          (take 32761 payload)"
    by (simp add: w3_def w2_def) (simp add: fragment_bytes_def)
  show ?thesis
  proof (cases "32761 < length payload")
    case False
    then show ?thesis using s1 s2 d3 by simp
  next
    case True
    have "0 \<le> block_offset w3" "block_offset w3 \<le> 32768"
      using True by (simp_all add: w3_def)
    from AddRecord_loop_total [OF this, of C "drop 32761 payload" False] obtain w' tail
      where r: "AddRecord_loop StringDest C w3 (drop 32761 payload) False = Some (OK, w')"
        and t: "dest w' = dest w3 @ tail"
      by auto
    have f1: "AddRecord StringDest C w payload = Some (OK, w')" using s1 s2 True r by simp
    have f2: "dest w' = dest w
      @ EncodeFixed32 (Mask (crc_Extend C (type_crc w ! RecordType_val kFirstType) []))
      @ [0, 0, of_nat (RecordType_val kFirstType)]
      @ fragment_bytes C (type_crc w) (if length payload \<le> 32761 then kLastType else kMiddleType)
          (take 32761 payload)
      @ tail"
      using t d3 by simp
    show ?thesis
      apply (rule exI [of _ w'])
      apply (rule exI [of _ tail])
      apply (intro conjI)
       apply (rule f1)
      apply (rule f2)
      done
  qed
qed


theorem WAL_zero_length_fragment_witness:
  "block_offset \<lparr>dest = ([]::bytes), block_offset = 32761, type_crc = [0, 0, 0, 0, 0]\<rparr>
     = kBlockSize - kHeaderSize
   \<and> [1, 2] \<noteq> ([]::bytes)
   \<and> AddRecord StringDest \<lparr>crc_Value = (\<lambda>d. 0), crc_Extend = (\<lambda>c d. c)\<rparr>
        \<lparr>dest = [], block_offset = 32761, type_crc = [0, 0, 0, 0, 0]\<rparr> [1, 2]
     = Some (OK, \<lparr>dest = [0xd8, 0xea, 0x82, 0xa2, 0, 0, 2]
                     @ [0xd8, 0xea, 0x82, 0xa2, 2, 0, 4] @ [1, 2],
                   block_offset = 9, type_crc = [0, 0, 0, 0, 0]\<rparr>)"
proof -
  let ?C = "\<lparr>crc_Value = (\<lambda>d. 0), crc_Extend = (\<lambda>c d. c)\<rparr>"
  let ?w = "\<lparr>dest = ([]::bytes), block_offset = 32761, type_crc = [0, 0, 0, 0, 0]\<rparr>"
  let ?w2 = "\<lparr>dest = [0xd8, 0xea, 0x82, 0xa2, 0, 0, 2::u8], block_offset = 32768,
      type_crc = [0, 0, 0, 0, 0]\<rparr>"
  have h: "block_offset ?w = kBlockSize - kHeaderSize" "[1, 2] \<noteq> ([]::bytes)"
    by (simp_all add: kBlockSize_def kHeaderSize_def)
  from WAL_zero_length_fragment [OF h, of ?C] obtain w' tail
    where r: "AddRecord StringDest ?C ?w [1, 2] = Some (OK, w')"
    by auto
  have f1: "fragment_bytes ?C [0, 0, 0, 0, 0] kFirstType []
      = [0xd8, 0xea, 0x82, 0xa2, 0, 0, 2]"
    by (simp add: fragment_bytes_def EncodeFixed32_def Mask_def)
  have f2: "fragment_bytes ?C [0, 0, 0, 0, 0] kLastType [1, 2]
      = [0xd8, 0xea, 0x82, 0xa2, 2, 0, 4, 1, 2]"
    by (simp add: fragment_bytes_def EncodeFixed32_def Mask_def)
  have s1: "AddRecord StringDest ?C ?w [1, 2] = AddRecord_loop StringDest ?C ?w2 [1, 2] False"
    using AddRecord_loop_step [of ?w ?C "[1, 2]" True]
    by (simp add: AddRecord_def padded_def Let_def fragment_type_def f1)
  have s2: "AddRecord_loop StringDest ?C ?w2 [1, 2] False
      = Some (OK, \<lparr>dest = [0xd8, 0xea, 0x82, 0xa2, 0, 0, 2]
                     @ [0xd8, 0xea, 0x82, 0xa2, 2, 0, 4] @ [1, 2],
                   block_offset = 9, type_crc = [0, 0, 0, 0, 0]\<rparr>)"
    using AddRecord_loop_step [of ?w2 ?C "[1, 2]" False]
    by (simp add: padded_def Let_def fragment_type_def f2)
  from h r s1 s2 show ?thesis by simp
qed


section \<open>Memtable\<close>

subsection \<open>Tags and entries\<close>













subsection \<open>The ordered set as a list\<close>






subsection \<open>Entries of the table\<close>
































end
